theory Spec2Isabelle
  imports Main "HOL-Library.AList" "HOL-Library.Char_ord" "HOL-Library.List_Lexorder"
    "HOL-Library.Product_Lexorder"
begin

section \<open>Dashboard link templates\<close>

text \<open>
  Both directions rewrite the numeric id in a link template with a regular expression
  anchored at the start of the string. The matchers below follow Python's \<open>re\<close>
  semantics for the two patterns: \<open>[0-9]+\<close> and \<open>[a-z0-9-]+\<close> are greedy and are
  followed by a character outside their class, so they take the maximal run; \<open>.\<close> is any
  character but a newline; \<open>$\<close> holds at the end of the string and before a final newline.
\<close>

definition is_digit :: "char \<Rightarrow> bool" where
  "is_digit c = (c \<in> set ''0123456789'')"

definition is_slug_char :: "char \<Rightarrow> bool" where
  "is_slug_char c = (c \<in> set ''abcdefghijklmnopqrstuvwxyz0123456789-'')"

definition newline :: char where
  "newline = CHR 0x0A"

fun strip_prefix :: "'a list \<Rightarrow> 'a list \<Rightarrow> 'a list option" where
  "strip_prefix [] ys = Some ys"
| "strip_prefix (x # xs) [] = None"
| "strip_prefix (x # xs) (y # ys) = (if x = y then strip_prefix xs ys else None)"

text \<open>\<open>$\<close> at the current position: nothing is left, or only a final newline.\<close>

definition at_end :: "string \<Rightarrow> bool" where
  "at_end r = (r = [] \<or> r = [newline])"

text \<open>\<open>\?.+\<close> at the current position: a question mark and at least one character that
  is not a newline. The text matched is the question mark and the run up to the next newline.\<close>

definition query_part :: "string \<Rightarrow> string option" where
  "query_part r =
     (case r of
        c # d # ds \<Rightarrow>
          if c = CHR ''?'' \<and> d \<noteq> newline
          then Some (c # takeWhile (\<lambda>x. x \<noteq> newline) (d # ds)) else None
      | _ \<Rightarrow> None)"

text \<open>
  \<open>fetch.py\<close>, line 127:
  \<^verbatim>\<open>re.sub(r'(^/dashboards/)[0-9]+(-[a-z0-9-]+\?.+|$)', r'\g<1>0\g<2>', url)\<close>.
  The second group is an alternation of \<open>-slug?query\<close> and \<open>$\<close>. The replacement keeps
  group 1, writes \<open>0\<close>, keeps group 2, and \<open>re.sub\<close> keeps what follows the match, so a
  match turns the digits into \<open>0\<close> and leaves the rest of the string as it is.
\<close>

definition fetch_link_matches :: "string \<Rightarrow> bool" where
  "fetch_link_matches r1 =
     ((case r1 of
         c # r2 \<Rightarrow>
           c = CHR ''-'' \<and> takeWhile is_slug_char r2 \<noteq> []
           \<and> query_part (dropWhile is_slug_char r2) \<noteq> None
       | [] \<Rightarrow> False)
      \<or> at_end r1)"

definition anonymize_link :: "string \<Rightarrow> string" where
  "anonymize_link url =
     (case strip_prefix ''/dashboards/'' url of
        None \<Rightarrow> url
      | Some r \<Rightarrow>
          if takeWhile is_digit r \<noteq> [] \<and> fetch_link_matches (dropWhile is_digit r)
          then ''/dashboards/'' @ ''0'' @ dropWhile is_digit r
          else url)"

text \<open>
  \<open>push.py\<close>, line 76:
  \<^verbatim>\<open>re.search(r'^/dashboards/([0-9]+)-([a-z0-9-]+)(\?.+|$)', url)\<close>.
  The result is groups 2 and 3 (the slug and the query string), or \<open>None\<close> when the
  pattern does not match.
\<close>

definition dashboard_url_groups :: "string \<Rightarrow> (string \<times> string) option" where
  "dashboard_url_groups url =
     (case strip_prefix ''/dashboards/'' url of
        None \<Rightarrow> None
      | Some r \<Rightarrow>
          if takeWhile is_digit r = [] then None
          else (case dropWhile is_digit r of
                  c # r2 \<Rightarrow>
                    if c = CHR ''-'' \<and> takeWhile is_slug_char r2 \<noteq> []
                    then (case query_part (dropWhile is_slug_char r2) of
                            Some q \<Rightarrow> Some (takeWhile is_slug_char r2, q)
                          | None \<Rightarrow>
                              if at_end (dropWhile is_slug_char r2)
                              then Some (takeWhile is_slug_char r2, [])
                              else None)
                    else None
                | [] \<Rightarrow> None))"

text \<open>Decimal rendering of an integer, as an f-string formats it.\<close>

fun str_nat :: "nat \<Rightarrow> string" where
  "str_nat n =
     (if n < 10 then [''0123456789'' ! n]
      else str_nat (n div 10) @ [''0123456789'' ! (n mod 10)])"

definition str_int :: "int \<Rightarrow> string" where
  "str_int i = (if i < 0 then ''-'' @ str_nat (nat (- i)) else str_nat (nat i))"

declare str_nat.simps [simp del]

section \<open>Data model\<close>

text \<open>
  The program works on JSON documents held in Python dicts. Keys that the code adds,
  deletes or tests for are optional fields (\<open>None\<close> is an absent key); keys that every
  document of the kind carries are plain fields. What the code never looks into is a value
  of the type parameter \<open>'a\<close>, compared with Python's \<open>==\<close>. A dict that is iterated is
  an association list with distinct keys, in insertion order.
\<close>

datatype error = KeyError string | TypeError | RecursionError | RuntimeError

datatype log_entry = LogError string | LogInfo string

record 'a param =
  p_type :: string
  queryName :: "string option"
  queryId :: "int option"
  p_rest :: 'a

record 'a q_options =
  parameters :: "'a param list option"
  o_rest :: 'a

record 'a column =
  displayAs :: "string option"
  linkUrlTemplate :: string
  c_rest :: 'a

record 'a viz_options =
  columns :: "'a column list option"
  vo_other :: "(string \<times> 'a) list"

record 'a viz =
  v_type :: string
  v_name :: string
  v_description :: string
  v_options :: "'a viz_options"
  v_id :: "int option"
  v_updated_at :: "string option"
  v_created_at :: "string option"
  v_query_id :: "int option"
  v_uploaded_id :: "int option"

text \<open>A saved query as \<open>load_saved_queries\<close> returns it (\<open>push.py\<close>).\<close>

record 'a saved_query =
  q_uploaded_id :: "int option"
  q_options :: "'a q_options"
  q_visualizations :: "'a viz list"
  q_rest :: 'a

text \<open>A query as the server returns it: its id and the name and id of each visualization.\<close>

record remote_query =
  rq_id :: int
  rq_visualizations :: "(string \<times> int) list"

record widget_ref =
  wr_name :: string
  wr_queryName :: string

record 'a w_options =
  pos_row :: int
  pos_col :: int
  wo_rest :: 'a

text \<open>A widget of a saved dashboard document.\<close>

record 'a widget =
  w_visualization :: "widget_ref option"
  w_text :: string
  w_options :: "'a w_options"
  w_rest :: 'a

text \<open>A widget as the server returns it inside a dashboard; a text box has no visualization.\<close>

record 'a remote_widget =
  rw_id :: int
  rw_visualization :: "widget_ref option"
  rw_text :: string
  rw_options :: "'a w_options"
  rw_rest :: 'a

record 'a remote_dashboard =
  d_id :: int
  d_slug :: string
  d_widgets :: "'a remote_widget list"

text \<open>The values of a top-level document key.\<close>

datatype 'a fvalue =
    PyNone
  | VStr string
  | VOptions "'a q_options"
  | VVisualizations "'a viz list"
  | VOther 'a

type_synonym 'a doc = "string \<rightharpoonup> 'a fvalue"

record 'a saved_dashboard =
  sd_fields :: "'a doc"
  sd_widgets :: "'a widget list"

text \<open>
  A dict comprehension \<open>{k: v for ...}\<close>: a key keeps the position of its first
  occurrence and the value of its last.
\<close>

definition dict_of_list :: "('k \<times> 'v) list \<Rightarrow> ('k \<times> 'v) list" where
  "dict_of_list kvs = foldl (\<lambda>d kv. AList.update (fst kv) (snd kv) d) [] kvs"

text \<open>\<open>d.get(k)\<close>: the value, or \<open>None\<close> for an absent key.\<close>

definition py_get :: "'a doc \<Rightarrow> string \<Rightarrow> 'a fvalue" where
  "py_get d k = (case d k of None \<Rightarrow> PyNone | Some v \<Rightarrow> v)"

section \<open>Push: the remote store\<close>

text \<open>
  Every call of the client is recorded as a request, in program order. A query request
  carries the \<open>query_name\<close> of the invocation of \<open>upload_query\<close> that issues it, and the
  data as it is at the time of the call. The server is a parameter: its answer may depend
  on all the requests it has seen.
\<close>

datatype 'a request =
    CreateQuery string "'a saved_query"
  | UpdateQuery string int "'a saved_query"
  | UpdateVisualization int "'a viz"
  | CreateVisualization "'a viz"
  | CreateDashboard string
  | UpdateDashboard int "'a fvalue" "'a fvalue" "'a fvalue"
  | DeleteWidget int
  | CreateWidget int int string "'a w_options"

record 'a server =
  srv_create_query :: "'a request list \<Rightarrow> 'a saved_query \<Rightarrow> remote_query"
  srv_update_visualization :: "'a request list \<Rightarrow> int \<Rightarrow> 'a viz \<Rightarrow> int"
  srv_create_visualization :: "'a request list \<Rightarrow> 'a viz \<Rightarrow> int"
  srv_create_dashboard :: "'a request list \<Rightarrow> string \<Rightarrow> 'a remote_dashboard"

section \<open>Push: \<open>fix_dashboard_url_id\<close>\<close>

text \<open>
  Returns the url and what it logs. The list comprehension keeps the ids of the dashboards
  with the slug, in the order of \<open>existing_dashboards.values()\<close>; index 0 of an empty list
  raises \<open>IndexError\<close>, which is caught and logged.
\<close>

definition fix_dashboard_url_id ::
  "string \<Rightarrow> (string \<times> 'a remote_dashboard) list \<Rightarrow> string \<times> log_entry list" where
  "fix_dashboard_url_id url existing_dashboards =
     (case dashboard_url_groups url of
        None \<Rightarrow> (url, [])
      | Some (slug, query) \<Rightarrow>
          (case [d_id d. d \<leftarrow> map snd existing_dashboards, d_slug d = slug] of
             i # _ \<Rightarrow> (''/dashboards/'' @ str_int i @ ''-'' @ slug @ query, [])
           | [] \<Rightarrow>
               (url, [LogError (''Could not find dashboard with slug '' @ slug
                                 @ ''; list index out of range'')])))"

section \<open>Push: \<open>upload_query\<close>\<close>

record 'a pstate =
  saved_queries :: "(string \<times> 'a saved_query) list"
  existing_queries :: "string \<rightharpoonup> remote_query"
  requests :: "'a request list"
  logged :: "log_entry list"

text \<open>Lines 151 to 154: the link columns of one visualization, left to right.\<close>

fun fix_columns ::
  "(string \<times> 'a remote_dashboard) list \<Rightarrow> 'a column list
   \<Rightarrow> 'a column list \<times> log_entry list" where
  "fix_columns existing_dashboards [] = ([], [])"
| "fix_columns existing_dashboards (c # cs) =
     (if displayAs c = Some ''link''
      then (case fix_dashboard_url_id (linkUrlTemplate c) existing_dashboards of
              (url, l1) \<Rightarrow>
                (case fix_columns existing_dashboards cs of
                   (cs', l2) \<Rightarrow> (c\<lparr>linkUrlTemplate := url\<rparr> # cs', l1 @ l2)))
      else (case fix_columns existing_dashboards cs of (cs', l2) \<Rightarrow> (c # cs', l2)))"

text \<open>
  Lines 148 to 170, one iteration: the visualization gets the query id, its link columns
  are fixed, it is updated when the remote query has a visualization of its name and
  created otherwise, and it records the id the server answers.
\<close>

definition upload_visualization ::
  "'a server \<Rightarrow> (string \<times> 'a remote_dashboard) list \<Rightarrow> int \<Rightarrow> (string \<rightharpoonup> int)
   \<Rightarrow> 'a viz \<Rightarrow> 'a request list \<times> log_entry list
   \<Rightarrow> 'a viz \<times> 'a request list \<times> log_entry list" where
  "upload_visualization srv existing_dashboards query_id existing_visualisations v acc =
     (case acc of (reqs, lg) \<Rightarrow>
        (case (case columns (v_options v) of
                 None \<Rightarrow> (None, [])
               | Some cs \<Rightarrow>
                   (case fix_columns existing_dashboards cs of (cs', l) \<Rightarrow> (Some cs', l))) of
           (cols, l) \<Rightarrow>
             (let v1 = v\<lparr>v_query_id := Some query_id,
                         v_options := (v_options v)\<lparr>columns := cols\<rparr>\<rparr>
              in (case existing_visualisations (v_name v1) of
                    Some vid \<Rightarrow>
                      (v1\<lparr>v_uploaded_id :=
                            Some (srv_update_visualization srv
                                    (reqs @ [UpdateVisualization vid v1]) vid v1)\<rparr>,
                       reqs @ [UpdateVisualization vid v1], lg @ l)
                  | None \<Rightarrow>
                      (v1\<lparr>v_uploaded_id :=
                            Some (srv_create_visualization srv
                                    (reqs @ [CreateVisualization v1]) v1)\<rparr>,
                       reqs @ [CreateVisualization v1], lg @ l)))))"

fun upload_visualizations ::
  "'a server \<Rightarrow> (string \<times> 'a remote_dashboard) list \<Rightarrow> int \<Rightarrow> (string \<rightharpoonup> int)
   \<Rightarrow> 'a viz list \<Rightarrow> 'a request list \<times> log_entry list
   \<Rightarrow> 'a viz list \<times> 'a request list \<times> log_entry list" where
  "upload_visualizations srv eds query_id evs [] acc = ([], acc)"
| "upload_visualizations srv eds query_id evs (v # vs) acc =
     (case upload_visualization srv eds query_id evs v acc of
        (v', acc') \<Rightarrow>
          (case upload_visualizations srv eds query_id evs vs acc' of
             (vs', acc'') \<Rightarrow> (v' # vs', acc'')))"

text \<open>
  Lines 129 to 172, for a query whose parameters are resolved: create it when the server
  has no query of its name, update it in any case, record \<open>uploaded_id\<close>, upload its
  visualizations. \<open>query_data\<close> is the entry of \<open>saved_queries\<close> as it is
  now (the Python holds a reference).
\<close>

definition send_query ::
  "'a server \<Rightarrow> (string \<times> 'a remote_dashboard) list \<Rightarrow> string \<Rightarrow> 'a saved_query
   \<Rightarrow> 'a pstate \<Rightarrow> int \<times> 'a pstate" where
  "send_query srv existing_dashboards query_name query_data st =
     (let reqs1 = (if existing_queries st query_name = None
                   then requests st @ [CreateQuery query_name query_data]
                   else requests st);
          rq = (case existing_queries st query_name of
                  None \<Rightarrow> srv_create_query srv reqs1 query_data
                | Some q \<Rightarrow> q);
          query_id = rq_id rq;
          reqs2 = reqs1 @ [UpdateQuery query_name query_id query_data]
      in (case upload_visualizations srv existing_dashboards query_id
                 (map_of (dict_of_list (rq_visualizations rq)))
                 (q_visualizations query_data) (reqs2, logged st) of
            (vs, reqs3, lg) \<Rightarrow>
              (query_id,
               st\<lparr>saved_queries :=
                     AList.update query_name
                       (query_data\<lparr>q_uploaded_id := Some query_id, q_visualizations := vs\<rparr>)
                       (saved_queries st),
                   existing_queries := (existing_queries st)(query_name \<mapsto> rq),
                   requests := reqs3,
                   logged := lg\<rparr>)))"

text \<open>The in-place update of parameter \<open>i\<close> of a saved query (lines 124 and 127).\<close>

definition set_query_id :: "string \<Rightarrow> nat \<Rightarrow> int \<Rightarrow> 'a pstate \<Rightarrow> 'a pstate" where
  "set_query_id query_name i qid st =
     (case map_of (saved_queries st) query_name of
        None \<Rightarrow> st
      | Some qd \<Rightarrow>
          (case parameters (q_options qd) of
             None \<Rightarrow> st
           | Some ps \<Rightarrow>
               st\<lparr>saved_queries :=
                    AList.update query_name
                      (qd\<lparr>q_options := (q_options qd)\<lparr>parameters :=
                            Some (ps[i := (ps ! i)\<lparr>queryId := Some qid, queryName := None\<rparr>])\<rparr>\<rparr>)
                      (saved_queries st)\<rparr>))"

text \<open>The parameter at index \<open>i\<close> of a saved query, as the list iterator reads it.\<close>

definition param_at :: "'a pstate \<Rightarrow> string \<Rightarrow> nat \<Rightarrow> 'a param option" where
  "param_at st query_name i =
     (case map_of (saved_queries st) query_name of
        None \<Rightarrow> None
      | Some qd \<Rightarrow>
          (case parameters (q_options qd) of
             None \<Rightarrow> None
           | Some ps \<Rightarrow> if i < length ps then Some (ps ! i) else None))"

text \<open>
  \<open>upload_query\<close> calls itself for every parameter of type \<open>query\<close>. The first argument is
  the number of frames left before Python raises \<open>RecursionError\<close>; every call takes one.
  The loop over the parameters (lines 120 to 127) is \<open>resolve_parameters\<close>, over the indices
  of the list: the parameter is read from the state at each iteration and written back to
  it, as the Python mutates the shared objects in place. An exception ends the run, so an
  error carries no state.
\<close>

fun upload_query ::
  "'a server \<Rightarrow> (string \<times> 'a remote_dashboard) list \<Rightarrow> nat \<Rightarrow> string \<Rightarrow> 'a pstate
   \<Rightarrow> error + int \<times> 'a pstate"
and resolve_parameters ::
  "'a server \<Rightarrow> (string \<times> 'a remote_dashboard) list \<Rightarrow> nat \<Rightarrow> string \<Rightarrow> nat list
   \<Rightarrow> 'a pstate \<Rightarrow> error + 'a pstate" where
  "upload_query srv eds 0 query_name st = Inl RecursionError"
| "upload_query srv eds (Suc depth) query_name st =
     (case map_of (saved_queries st) query_name of
        None \<Rightarrow> Inl (KeyError query_name)
      | Some query_data \<Rightarrow>
          (case q_uploaded_id query_data of
             Some uploaded \<Rightarrow> Inr (uploaded, st)
           | None \<Rightarrow>
               (case (case parameters (q_options query_data) of
                        None \<Rightarrow> Inr st
                      | Some ps \<Rightarrow>
                          resolve_parameters srv eds depth query_name [0..<length ps] st) of
                  Inl e \<Rightarrow> Inl e
                | Inr st1 \<Rightarrow>
                    (case map_of (saved_queries st1) query_name of
                       None \<Rightarrow> Inl (KeyError query_name)
                     | Some query_data1 \<Rightarrow>
                         Inr (send_query srv eds query_name query_data1 st1)))))"
| "resolve_parameters srv eds depth query_name [] st = Inr st"
| "resolve_parameters srv eds depth query_name (i # is) st =
     (case param_at st query_name i of
        None \<Rightarrow> Inr st
      | Some p \<Rightarrow>
          if p_type p = ''query''
          then (case queryName p of
                  None \<Rightarrow> Inl (KeyError ''queryName'')
                | Some dep \<Rightarrow>
                    (case upload_query srv eds depth dep st of
                       Inl e \<Rightarrow> Inl e
                     | Inr (qid, st') \<Rightarrow>
                         resolve_parameters srv eds depth query_name is
                           (set_query_id query_name i qid st')))
          else resolve_parameters srv eds depth query_name is st)"

text \<open>
  \<open>upload_queries\<close>: every key of \<open>saved_queries\<close>, in order. The keys do not change during
  the run, only the values do.
\<close>

fun upload_each ::
  "'a server \<Rightarrow> (string \<times> 'a remote_dashboard) list \<Rightarrow> nat \<Rightarrow> string list \<Rightarrow> 'a pstate
   \<Rightarrow> error + 'a pstate" where
  "upload_each srv eds depth [] st = Inr st"
| "upload_each srv eds depth (query_name # names) st =
     (case upload_query srv eds depth query_name st of
        Inl e \<Rightarrow> Inl e
      | Inr (_, st') \<Rightarrow> upload_each srv eds depth names st')"

definition upload_queries ::
  "'a server \<Rightarrow> (string \<times> 'a remote_dashboard) list \<Rightarrow> nat \<Rightarrow> 'a pstate
   \<Rightarrow> error + 'a pstate" where
  "upload_queries srv eds depth st =
     upload_each srv eds depth (map fst (saved_queries st)) st"

section \<open>Push: dashboards\<close>

text \<open>\<open>d[k]\<close> on a document: \<open>KeyError\<close> for an absent key.\<close>

definition py_item :: "'a doc \<Rightarrow> string \<Rightarrow> error + 'a fvalue" where
  "py_item d k = (case d k of None \<Rightarrow> Inl (KeyError k) | Some v \<Rightarrow> Inr v)"

text \<open>
  \<open>create_missing_dashboards\<close>: a dashboard that the server does not have is created and
  added to \<open>existing_dashboards\<close>; the settings of every saved dashboard are then updated.
\<close>

fun create_missing_dashboards ::
  "'a server \<Rightarrow> (string \<times> 'a saved_dashboard) list
   \<Rightarrow> (string \<times> 'a remote_dashboard) list \<times> 'a request list
   \<Rightarrow> error + (string \<times> 'a remote_dashboard) list \<times> 'a request list" where
  "create_missing_dashboards srv [] acc = Inr acc"
| "create_missing_dashboards srv ((name, sd) # rest) (eds, reqs) =
     (let reqs1 = (if map_of eds name = None then reqs @ [CreateDashboard name] else reqs);
          ed = (case map_of eds name of
                  None \<Rightarrow> srv_create_dashboard srv reqs1 name
                | Some d \<Rightarrow> d);
          eds1 = AList.update name ed eds
      in (case py_item (sd_fields sd) ''is_draft'' of
            Inl e \<Rightarrow> Inl e
          | Inr is_draft \<Rightarrow>
              (case py_item (sd_fields sd) ''tags'' of
                 Inl e \<Rightarrow> Inl e
               | Inr tags \<Rightarrow>
                   (case py_item (sd_fields sd) ''dashboard_filters_enabled'' of
                      Inl e \<Rightarrow> Inl e
                    | Inr filters \<Rightarrow>
                        create_missing_dashboards srv rest
                          (eds1, reqs1 @ [UpdateDashboard (d_id ed) is_draft tags filters])))))"

text \<open>
  \<open>update_dashboards\<close>, lines 311 to 313: the progress line reads the visualization of the
  remote widget before the widget is deleted.
\<close>

fun delete_widgets :: "'a remote_widget list \<Rightarrow> 'a request list \<Rightarrow> error + 'a request list" where
  "delete_widgets [] reqs = Inr reqs"
| "delete_widgets (w # ws) reqs =
     (case rw_visualization w of
        None \<Rightarrow> Inl (KeyError ''visualization'')
      | Some _ \<Rightarrow> delete_widgets ws (reqs @ [DeleteWidget (rw_id w)]))"

text \<open>Lines 324 to 326: what is logged for a visualization that is not found.\<close>

definition not_found_log :: "widget_ref \<Rightarrow> log_entry list" where
  "not_found_log r =
     LogError (''Could not find visualisation '' @ [CHR 0x27] @ wr_name r @ [CHR 0x27]
               @ '' on query '' @ [CHR 0x27] @ wr_queryName r @ [CHR 0x27])
     # (if wr_name r = ''Table''
        then [LogError (''Note that the default '' @ [CHR 0x27] @ ''Table'' @ [CHR 0x27]
                        @ '' visualisation is not saved unless you edit it manually.'')]
        else [])"

text \<open>
  Lines 315 to 332. The accumulator is the \<open>error\<close> flag, the requests and the log. A
  visualization that is not found sets the flag, logs, and the loop goes on with the next
  widget; a query name that is not a key of \<open>saved_queries\<close> raises.
\<close>

fun add_widgets ::
  "(string \<times> 'a saved_query) list \<Rightarrow> int \<Rightarrow> 'a widget list
   \<Rightarrow> bool \<times> 'a request list \<times> log_entry list
   \<Rightarrow> error + bool \<times> 'a request list \<times> log_entry list" where
  "add_widgets saved dashboard_id [] acc = Inr acc"
| "add_widgets saved dashboard_id (w # ws) (err, reqs, lg) =
     (case w_visualization w of
        None \<Rightarrow> Inl (KeyError ''visualization'')
      | Some r \<Rightarrow>
          (case map_of saved (wr_queryName r) of
             None \<Rightarrow> Inl (KeyError (wr_queryName r))
           | Some query \<Rightarrow>
               (case find (\<lambda>i. v_name i = wr_name r) (q_visualizations query) of
                  None \<Rightarrow>
                    add_widgets saved dashboard_id ws (True, reqs, lg @ not_found_log r)
                | Some visualization \<Rightarrow>
                    (case v_uploaded_id visualization of
                       None \<Rightarrow> Inl (KeyError ''uploaded_id'')
                     | Some vid \<Rightarrow>
                         add_widgets saved dashboard_id ws
                           (err, reqs @ [CreateWidget dashboard_id vid (w_text w) (w_options w)],
                            lg)))))"

fun update_each_dashboard ::
  "(string \<times> 'a saved_dashboard) list \<Rightarrow> (string \<times> 'a remote_dashboard) list
   \<Rightarrow> (string \<times> 'a saved_query) list \<Rightarrow> bool \<times> 'a request list \<times> log_entry list
   \<Rightarrow> error + bool \<times> 'a request list \<times> log_entry list" where
  "update_each_dashboard [] eds saved acc = Inr acc"
| "update_each_dashboard ((name, sd) # rest) eds saved (err, reqs, lg) =
     (case map_of eds name of
        None \<Rightarrow> Inl (KeyError name)
      | Some ed \<Rightarrow>
          (case delete_widgets (d_widgets ed) reqs of
             Inl e \<Rightarrow> Inl e
           | Inr reqs1 \<Rightarrow>
               (case add_widgets saved (d_id ed) (sd_widgets sd) (err, reqs1, lg) of
                  Inl e \<Rightarrow> Inl e
                | Inr acc \<Rightarrow> update_each_dashboard rest eds saved acc)))"

text \<open>The result is the return value (1 or 0), the requests and the log.\<close>

definition update_dashboards ::
  "(string \<times> 'a saved_dashboard) list \<Rightarrow> (string \<times> 'a remote_dashboard) list
   \<Rightarrow> (string \<times> 'a saved_query) list \<Rightarrow> 'a request list \<times> log_entry list
   \<Rightarrow> error + int \<times> 'a request list \<times> log_entry list" where
  "update_dashboards saved_dashboards existing_dashboards saved acc =
     (case update_each_dashboard saved_dashboards existing_dashboards saved
             (False, fst acc, snd acc) of
        Inl e \<Rightarrow> Inl e
      | Inr (err, reqs, lg) \<Rightarrow>
          if err
          then Inr (1, reqs, lg @ [LogInfo ''Dashboards loaded with errors. See above for details.''])
          else Inr (0, reqs, lg @ [LogInfo ''Dashboards loaded'']))"

section \<open>Push: the run\<close>

record datasource =
  ds_name :: string
  ds_type :: string
  ds_id :: int

text \<open>
  \<open>find_data_source\<close>: the data sources are indexed by name. An empty name is falsy,
  like no name.
\<close>

definition find_data_source :: "datasource list \<Rightarrow> string option \<Rightarrow> error + datasource" where
  "find_data_source sources datasource_name =
     (let datasources = dict_of_list (map (\<lambda>i. (ds_name i, i)) sources)
      in (case (if datasource_name = Some [] then None else datasource_name) of
            Some name \<Rightarrow>
              (case map_of datasources name of
                 None \<Rightarrow> Inl (KeyError name)
               | Some d \<Rightarrow> Inr d)
          | None \<Rightarrow>
              (case map snd datasources of
                 [d] \<Rightarrow> Inr d
               | _ \<Rightarrow> Inl RuntimeError)))"

text \<open>
  \<open>push\<close>. What the run reads from its environment is a parameter: the data sources and
  the dashboards and queries of the server, the saved dashboards, the saved queries of a
  data source, and the number of frames the interpreter allows. The result is the exit
  status (\<open>Inr\<close>) or the exception that escapes (\<open>Inl\<close>).
\<close>

definition push ::
  "'a server \<Rightarrow> nat \<Rightarrow> datasource list \<Rightarrow> string option
   \<Rightarrow> (string \<times> 'a remote_dashboard) list \<Rightarrow> (string \<times> 'a saved_dashboard) list
   \<Rightarrow> (string \<rightharpoonup> remote_query) \<Rightarrow> (datasource \<Rightarrow> (string \<times> 'a saved_query) list)
   \<Rightarrow> error + int" where
  "push srv depth sources datasource_name existing_dashboards saved_dashboards
        existing load_saved_queries =
     (case find_data_source sources datasource_name of
        Inl RuntimeError \<Rightarrow> Inr 1
      | Inl e \<Rightarrow> Inl e
      | Inr datasource \<Rightarrow>
          (case create_missing_dashboards srv saved_dashboards (existing_dashboards, []) of
             Inl e \<Rightarrow> Inl e
           | Inr (eds, reqs) \<Rightarrow>
               (case upload_queries srv eds depth
                       \<lparr>saved_queries = load_saved_queries datasource,
                        existing_queries = existing, requests = reqs, logged = []\<rparr> of
                  Inl e \<Rightarrow> Inl e
                | Inr st \<Rightarrow>
                    (case update_dashboards saved_dashboards eds (saved_queries st)
                            (requests st, logged st) of
                       Inl e \<Rightarrow> Inl e
                     | Inr (result, _) \<Rightarrow> Inr result))))"

section \<open>Fetch: \<open>save_queries\<close>\<close>

definition QUERY_META_FIELDS :: "string list" where
  "QUERY_META_FIELDS =
     [''name'', ''description'', ''is_archived'', ''is_draft'', ''is_favourite'',
      ''options'', ''schedule'', ''tags'']"

definition DASHBOARD_FIELDS :: "string list" where
  "DASHBOARD_FIELDS =
     [''slug'', ''name'', ''layout'', ''dashboard_filters_enabled'', ''options'',
      ''is_archived'', ''is_draft'', ''tags'']"

text \<open>
  Lines 104 to 109: a parameter of type \<open>query\<close> gets the name of the query its
  \<open>queryId\<close> refers to, and loses the id. \<open>queries\<close> is the dict of all fetched queries by
  id. A name that is not a string is outside the data model (\<open>TypeError\<close>).
\<close>

fun ids_to_names :: "(int \<rightharpoonup> 'a doc) \<Rightarrow> 'a param list \<Rightarrow> error + 'a param list" where
  "ids_to_names queries [] = Inr []"
| "ids_to_names queries (p # ps) =
     (case (if p_type p = ''query''
            then (case queryId p of
                    None \<Rightarrow> Inl (KeyError ''queryId'')
                  | Some i \<Rightarrow>
                      (case queries i of
                         None \<Rightarrow> Inl (KeyError (str_int i))
                       | Some q \<Rightarrow>
                           (case py_item q ''name'' of
                              Inl e \<Rightarrow> Inl e
                            | Inr (VStr n) \<Rightarrow> Inr (p\<lparr>queryName := Some n, queryId := None\<rparr>)
                            | Inr _ \<Rightarrow> Inl TypeError)))
            else Inr p) of
        Inl e \<Rightarrow> Inl e
      | Inr p' \<Rightarrow>
          (case ids_to_names queries ps of
             Inl e \<Rightarrow> Inl e
           | Inr ps' \<Rightarrow> Inr (p' # ps')))"

text \<open>
  Lines 111 to 116. The second component lists the fields that the loop assigns
  (\<open>metadata[field] = query[field]\<close>), in order; a field that is not listed is not written.
\<close>

fun store_query_fields ::
  "string list \<Rightarrow> 'a doc \<Rightarrow> 'a doc \<times> string list \<Rightarrow> 'a doc \<times> string list" where
  "store_query_fields [] query acc = acc"
| "store_query_fields (field # rest) query (metadata, assigned) =
     (case query field of
        None \<Rightarrow> store_query_fields rest query (metadata, assigned)
      | Some v \<Rightarrow>
          if py_get metadata field \<noteq> v
          then store_query_fields rest query (metadata(field \<mapsto> v), assigned @ [field])
          else store_query_fields rest query (metadata, assigned))"

text \<open>Lines 121 to 127, for one visualization.\<close>

definition anonymize_column :: "'a column \<Rightarrow> 'a column" where
  "anonymize_column c =
     (if displayAs c = Some ''link''
      then c\<lparr>linkUrlTemplate := anonymize_link (linkUrlTemplate c)\<rparr> else c)"

definition strip_visualization :: "'a viz \<Rightarrow> 'a viz" where
  "strip_visualization v =
     v\<lparr>v_id := None, v_updated_at := None, v_created_at := None,
       v_options := (v_options v)\<lparr>columns := map_option (map anonymize_column)
                                                (columns (v_options v))\<rparr>\<rparr>"

text \<open>The dict literal of lines 129 to 134.\<close>

definition default_table :: "'a viz" where
  "default_table =
     \<lparr>v_type = ''TABLE'', v_name = ''Table'', v_description = [],
      v_options = \<lparr>columns = None, vo_other = []\<rparr>,
      v_id = None, v_updated_at = None, v_created_at = None,
      v_query_id = None, v_uploaded_id = None\<rparr>"

text \<open>Lines 119 to 136: the list stored under \<open>visualizations\<close>.\<close>

definition persisted_visualizations :: "'a viz list \<Rightarrow> 'a viz list" where
  "persisted_visualizations vs =
     sort_key v_name (filter (\<lambda>i. i \<noteq> default_table) (map strip_visualization vs))"

text \<open>
  The body of the loop of \<open>save_queries\<close> from line 104 on: the metadata document to be
  written, from the document read from the disk (empty when there is none), and the fields
  assigned by the loop of lines 111 to 116.
\<close>

definition save_query_metadata ::
  "(int \<rightharpoonup> 'a doc) \<Rightarrow> 'a doc \<Rightarrow> 'a doc \<Rightarrow> error + 'a doc \<times> string list" where
  "save_query_metadata queries metadata query =
     (case py_item query ''options'' of
        Inl e \<Rightarrow> Inl e
      | Inr (VOptions opts) \<Rightarrow>
          (case (case parameters opts of
                   None \<Rightarrow> Inr None
                 | Some ps \<Rightarrow> map_sum id Some (ids_to_names queries ps)) of
             Inl e \<Rightarrow> Inl e
           | Inr ps' \<Rightarrow>
               (let query1 = query(''options'' \<mapsto> VOptions (opts\<lparr>parameters := ps'\<rparr>))
                in (case store_query_fields QUERY_META_FIELDS query1 (metadata, []) of
                      (metadata1, assigned) \<Rightarrow>
                        (case query1 ''visualizations'' of
                           None \<Rightarrow> Inr (metadata1, assigned)
                         | Some (VVisualizations vs) \<Rightarrow>
                             Inr (metadata1(''visualizations'' \<mapsto>
                                    VVisualizations (persisted_visualizations vs)), assigned)
                         | Some _ \<Rightarrow> Inl TypeError))))
      | Inr _ \<Rightarrow> Inl TypeError)"

section \<open>Fetch: \<open>save_dashboards\<close>\<close>

text \<open>A dashboard as the server returns it.\<close>

record 'a fetched_dashboard =
  fd_fields :: "'a doc"
  fd_widgets :: "'a remote_widget list"

text \<open>Lines 169 to 171; \<open>dashboard[i]\<close> raises for an absent key.\<close>

fun store_dashboard_fields ::
  "string list \<Rightarrow> 'a doc \<Rightarrow> 'a doc \<times> string list \<Rightarrow> error + 'a doc \<times> string list" where
  "store_dashboard_fields [] dashboard acc = Inr acc"
| "store_dashboard_fields (i # rest) dashboard (dashboard_data, assigned) =
     (case py_item dashboard i of
        Inl e \<Rightarrow> Inl e
      | Inr v \<Rightarrow>
          if py_get dashboard_data i \<noteq> v
          then store_dashboard_fields rest dashboard (dashboard_data(i \<mapsto> v), assigned @ [i])
          else store_dashboard_fields rest dashboard (dashboard_data, assigned))"

text \<open>
  Lines 176 to 181: the widget without the fields of \<open>DASHBOARD_WIDGET_IGNORE_FIELDS\<close>, and
  with the name of its visualization and of the query of that visualization. Of the
  ignored fields, the model has \<open>id\<close> and \<open>visualization\<close>.
\<close>

definition filtered_widget :: "'a remote_widget \<Rightarrow> 'a widget" where
  "filtered_widget orig_widget =
     \<lparr>w_visualization = rw_visualization orig_widget, w_text = rw_text orig_widget,
      w_options = rw_options orig_widget, w_rest = rw_rest orig_widget\<rparr>"

text \<open>Lines 173 to 182: \<open>list.sort\<close> is stable, and so is \<open>sort_key\<close>.\<close>

definition saved_widgets :: "'a remote_widget list \<Rightarrow> 'a widget list" where
  "saved_widgets ws =
     map filtered_widget
       (sort_key (\<lambda>i. (pos_row (rw_options i), pos_col (rw_options i))) ws)"

definition save_dashboard_data ::
  "'a saved_dashboard \<Rightarrow> 'a fetched_dashboard \<Rightarrow> error + 'a saved_dashboard \<times> string list" where
  "save_dashboard_data dashboard_data dashboard =
     (case store_dashboard_fields DASHBOARD_FIELDS (fd_fields dashboard)
             (sd_fields dashboard_data, []) of
        Inl e \<Rightarrow> Inl e
      | Inr (stored, assigned) \<Rightarrow>
          Inr (\<lparr>sd_fields = stored, sd_widgets = saved_widgets (fd_widgets dashboard)\<rparr>,
               assigned))"

section \<open>Notions used by the properties\<close>

text \<open>
  The test of lines 113 to 115 and of line 170: the field is a key of the fetched
  document and the stored value (\<open>None\<close> for an absent key) differs from the fetched one.
\<close>

definition field_changed :: "'a doc \<Rightarrow> 'a doc \<Rightarrow> string \<Rightarrow> bool" where
  "field_changed new old field =
     (case new field of None \<Rightarrow> False | Some v \<Rightarrow> py_get old field \<noteq> v)"

text \<open>A fetched dashboard and the document stored for it by an earlier fetch.\<close>

definition ex_dashboard :: "string doc" where
  "ex_dashboard =
     [''slug'' \<mapsto> VStr ''class-summary'', ''name'' \<mapsto> VStr ''Class Summary'',
      ''layout'' \<mapsto> VOther ''[]'', ''dashboard_filters_enabled'' \<mapsto> VOther ''false'',
      ''options'' \<mapsto> VOther ''{}'', ''is_archived'' \<mapsto> VOther ''false'',
      ''is_draft'' \<mapsto> VOther ''false'', ''tags'' \<mapsto> VOther ''[]'', ''id'' \<mapsto> VOther ''7'']"

definition ex_dashboard_data :: "string doc" where
  "ex_dashboard_data =
     [''slug'' \<mapsto> VStr ''class-summary'', ''name'' \<mapsto> VStr ''Class Summary'',
      ''layout'' \<mapsto> VOther ''[]'', ''dashboard_filters_enabled'' \<mapsto> VOther ''false'',
      ''options'' \<mapsto> VOther ''{}'', ''is_archived'' \<mapsto> VOther ''false'',
      ''is_draft'' \<mapsto> VOther ''true'', ''owner'' \<mapsto> VOther ''team-a'']"

text \<open>
  What \<open>update_dashboards\<close> does with one saved widget, read off lines 316 to 331: the
  visualization it finds; whether the widget raises (no \<open>visualization\<close> key, a query name
  that is not a key of \<open>saved_queries\<close>, or a visualization that was not uploaded);
  whether it is skipped as unresolved (the query is there, the visualization is not); the
  request it issues; what it logs.
\<close>

definition find_visualization :: "(string \<times> 'a saved_query) list \<Rightarrow> widget_ref \<Rightarrow> 'a viz option" where
  "find_visualization saved r =
     (case map_of saved (wr_queryName r) of
        None \<Rightarrow> None
      | Some query \<Rightarrow> find (\<lambda>i. v_name i = wr_name r) (q_visualizations query))"

definition widget_raises :: "(string \<times> 'a saved_query) list \<Rightarrow> 'a widget \<Rightarrow> bool" where
  "widget_raises saved w =
     (case w_visualization w of
        None \<Rightarrow> True
      | Some r \<Rightarrow>
          (case map_of saved (wr_queryName r) of
             None \<Rightarrow> True
           | Some query \<Rightarrow>
               (case find_visualization saved r of
                  None \<Rightarrow> False
                | Some v \<Rightarrow> v_uploaded_id v = None)))"

definition widget_unresolved :: "(string \<times> 'a saved_query) list \<Rightarrow> 'a widget \<Rightarrow> bool" where
  "widget_unresolved saved w =
     (case w_visualization w of
        None \<Rightarrow> False
      | Some r \<Rightarrow> map_of saved (wr_queryName r) \<noteq> None \<and> find_visualization saved r = None)"

definition widget_requests ::
  "(string \<times> 'a saved_query) list \<Rightarrow> int \<Rightarrow> 'a widget \<Rightarrow> 'a request list" where
  "widget_requests saved dashboard_id w =
     (case w_visualization w of
        None \<Rightarrow> []
      | Some r \<Rightarrow>
          (case find_visualization saved r of
             None \<Rightarrow> []
           | Some v \<Rightarrow>
               (case v_uploaded_id v of
                  None \<Rightarrow> []
                | Some vid \<Rightarrow> [CreateWidget dashboard_id vid (w_text w) (w_options w)])))"

definition widget_log :: "(string \<times> 'a saved_query) list \<Rightarrow> 'a widget \<Rightarrow> log_entry list" where
  "widget_log saved w =
     (case w_visualization w of
        None \<Rightarrow> []
      | Some r \<Rightarrow> if widget_unresolved saved w then not_found_log r else [])"

definition dashboard_raises ::
  "(string \<times> 'a remote_dashboard) list \<Rightarrow> (string \<times> 'a saved_query) list
   \<Rightarrow> string \<times> 'a saved_dashboard \<Rightarrow> bool" where
  "dashboard_raises eds saved d =
     (case map_of eds (fst d) of
        None \<Rightarrow> True
      | Some ed \<Rightarrow>
          (\<exists>rw\<in>set (d_widgets ed). rw_visualization rw = None)
          \<or> (\<exists>w\<in>set (sd_widgets (snd d)). widget_raises saved w))"

definition dashboard_requests ::
  "(string \<times> 'a remote_dashboard) list \<Rightarrow> (string \<times> 'a saved_query) list
   \<Rightarrow> string \<times> 'a saved_dashboard \<Rightarrow> 'a request list" where
  "dashboard_requests eds saved d =
     (case map_of eds (fst d) of
        None \<Rightarrow> []
      | Some ed \<Rightarrow>
          map (\<lambda>rw. DeleteWidget (rw_id rw)) (d_widgets ed)
          @ concat (map (widget_requests saved (d_id ed)) (sd_widgets (snd d))))"

definition dashboard_log ::
  "(string \<times> 'a saved_query) list \<Rightarrow> string \<times> 'a saved_dashboard \<Rightarrow> log_entry list" where
  "dashboard_log saved d = concat (map (widget_log saved) (sd_widgets (snd d)))"

definition any_unresolved ::
  "(string \<times> 'a saved_query) list \<Rightarrow> (string \<times> 'a saved_dashboard) list \<Rightarrow> bool" where
  "any_unresolved saved sds =
     (\<exists>d\<in>set sds. \<exists>w\<in>set (sd_widgets (snd d)). widget_unresolved saved w)"

text \<open>An example run: two saved queries, one dashboard with a chart and a
  \<open>Table\<close> widget, and a server that numbers what it creates.\<close>

definition ex_chart :: "string viz" where
  "ex_chart =
     \<lparr>v_type = ''CHART'', v_name = ''Chart'', v_description = '''',
      v_options = \<lparr>columns = Some [\<lparr>displayAs = Some ''link'',
                     linkUrlTemplate = ''/dashboards/0-board?p_class=1'', c_rest = ''''\<rparr>],
                   vo_other = []\<rparr>,
      v_id = None, v_updated_at = None, v_created_at = None,
      v_query_id = None, v_uploaded_id = None\<rparr>"

definition ex_queries :: "(string \<times> string saved_query) list" where
  "ex_queries =
     [(''Report'',
       \<lparr>q_uploaded_id = None,
        q_options = \<lparr>parameters = Some [\<lparr>p_type = ''text'', queryName = None, queryId = None,
                                         p_rest = ''title''\<rparr>,
                                        \<lparr>p_type = ''query'', queryName = Some ''Lookup'',
                                         queryId = None, p_rest = ''class''\<rparr>],
                      o_rest = ''''\<rparr>,
        q_visualizations = [ex_chart], q_rest = ''select 1''\<rparr>),
      (''Lookup'',
       \<lparr>q_uploaded_id = None, q_options = \<lparr>parameters = None, o_rest = ''''\<rparr>,
        q_visualizations = [], q_rest = ''select 2''\<rparr>)]"

definition ex_server :: "string server" where
  "ex_server =
     \<lparr>srv_create_query = (\<lambda>reqs q. \<lparr>rq_id = 100 + int (length reqs),
                                      rq_visualizations = [(''Table'', 1)]\<rparr>),
      srv_update_visualization = (\<lambda>reqs vid v. vid),
      srv_create_visualization = (\<lambda>reqs v. 200 + int (length reqs)),
      srv_create_dashboard = (\<lambda>reqs name. \<lparr>d_id = 300 + int (length reqs), d_slug = name,
                                            d_widgets = []\<rparr>)\<rparr>"

definition ex_widget :: "string \<Rightarrow> int \<Rightarrow> string widget" where
  "ex_widget name col =
     \<lparr>w_visualization = Some \<lparr>wr_name = name, wr_queryName = ''Report''\<rparr>, w_text = '''',
      w_options = \<lparr>pos_row = 0, pos_col = col, wo_rest = ''''\<rparr>, w_rest = ''''\<rparr>"

definition ex_saved_dashboards :: "(string \<times> string saved_dashboard) list" where
  "ex_saved_dashboards =
     [(''Board'',
       \<lparr>sd_fields = [''is_draft'' \<mapsto> VOther ''false'', ''tags'' \<mapsto> VOther ''[]'',
                     ''dashboard_filters_enabled'' \<mapsto> VOther ''false''],
        sd_widgets = [ex_widget ''Chart'' 0, ex_widget ''Table'' 3]\<rparr>)]"

definition ex_remote_dashboards :: "(string \<times> string remote_dashboard) list" where
  "ex_remote_dashboards =
     [(''Board'',
       \<lparr>d_id = 7, d_slug = ''board'',
        d_widgets = [\<lparr>rw_id = 11,
                      rw_visualization = Some \<lparr>wr_name = ''Old'', wr_queryName = ''Report''\<rparr>,
                      rw_text = '''', rw_options = \<lparr>pos_row = 0, pos_col = 0, wo_rest = ''''\<rparr>,
                      rw_rest = ''''\<rparr>]\<rparr>)]"

definition ex_sources :: "datasource list" where
  "ex_sources = [\<lparr>ds_name = ''warehouse'', ds_type = ''pg'', ds_id = 1\<rparr>]"

definition ex_uploaded :: "string pstate" where
  "ex_uploaded = projr (upload_queries ex_server ex_remote_dashboards 10
                   \<lparr>saved_queries = ex_queries, existing_queries = Map.empty,
                    requests = [UpdateDashboard 7 (VOther ''false'') (VOther ''[]'') (VOther ''false'')],
                    logged = []\<rparr>)"

definition ex_server_table :: "string viz" where
  "ex_server_table =
     \<lparr>v_type = ''TABLE'', v_name = ''Table'', v_description = '''',
      v_options = \<lparr>columns = None, vo_other = []\<rparr>,
      v_id = Some 5, v_updated_at = Some ''2024-01-01'', v_created_at = Some ''2024-01-01'',
      v_query_id = None, v_uploaded_id = None\<rparr>"

definition ex_plain_query :: "string saved_query" where
  "ex_plain_query =
     \<lparr>q_uploaded_id = Some 101, q_options = \<lparr>parameters = None, o_rest = ''''\<rparr>,
      q_visualizations = persisted_visualizations [ex_server_table], q_rest = ''select 1''\<rparr>"

definition ex_table_board :: "(string \<times> string saved_dashboard) list" where
  "ex_table_board =
     [(''Board'', \<lparr>sd_fields = Map.empty, sd_widgets = [ex_widget ''Table'' 0]\<rparr>)]"

definition ex_gone_board :: "(string \<times> string saved_dashboard) list" where
  "ex_gone_board =
     [(''Board'',
       \<lparr>sd_fields = Map.empty,
        sd_widgets = [\<lparr>w_visualization = Some \<lparr>wr_name = ''Chart'', wr_queryName = ''Gone''\<rparr>,
                       w_text = '''', w_options = \<lparr>pos_row = 0, pos_col = 0, wo_rest = ''''\<rparr>,
                       w_rest = ''''\<rparr>]\<rparr>)]"

text \<open>
  The two forms of a reference to a query in a parameter of type \<open>query\<close>: by name
  (a \<open>queryName\<close> and no \<open>queryId\<close>) and by id (a \<open>queryId\<close> and no \<open>queryName\<close>);
  a persisted document whose parameters refer by name; a request whose query data refers by
  id.
\<close>

definition query_parameters :: "'a q_options \<Rightarrow> 'a param list" where
  "query_parameters opts =
     (case parameters opts of
        None \<Rightarrow> []
      | Some ps \<Rightarrow> filter (\<lambda>p. p_type p = ''query'') ps)"

definition holds_name :: "'a param \<Rightarrow> bool" where
  "holds_name p = (queryName p \<noteq> None \<and> queryId p = None)"

definition holds_id :: "'a param \<Rightarrow> bool" where
  "holds_id p = (queryId p \<noteq> None \<and> queryName p = None)"

definition persisted_by_name :: "'a doc \<Rightarrow> bool" where
  "persisted_by_name metadata =
     (case metadata ''options'' of
        Some (VOptions opts) \<Rightarrow> list_all holds_name (query_parameters opts)
      | _ \<Rightarrow> False)"

definition sent_by_id :: "'a request \<Rightarrow> bool" where
  "sent_by_id r =
     (case r of
        CreateQuery _ q \<Rightarrow> list_all holds_id (query_parameters (q_options q))
      | UpdateQuery _ _ q \<Rightarrow> list_all holds_id (query_parameters (q_options q))
      | _ \<Rightarrow> True)"

text \<open>The entry of a saved query in a state of the upload, its parameters, and the
  relation between the state before and the state after a call: no parameter changes its
  type, a reference by id stays one, and requests that refer by id are followed by requests
  that do.\<close>

definition entry :: "'a pstate \<Rightarrow> string \<Rightarrow> 'a saved_query option" where
  "entry st n = map_of (saved_queries st) n"

definition params_of :: "'a pstate \<Rightarrow> string \<Rightarrow> 'a param list" where
  "params_of st n =
     (case entry st n of
        None \<Rightarrow> []
      | Some q \<Rightarrow> (case parameters (q_options q) of None \<Rightarrow> [] | Some ps \<Rightarrow> ps))"

definition resolved_from :: "'a pstate \<Rightarrow> 'a pstate \<Rightarrow> bool" where
  "resolved_from st st' =
     ((\<forall>n. map p_type (params_of st' n) = map p_type (params_of st n))
      \<and> (\<forall>n j. j < length (params_of st n) \<longrightarrow> holds_id (params_of st n ! j)
             \<longrightarrow> holds_id (params_of st' n ! j))
      \<and> (list_all sent_by_id (requests st) \<longrightarrow> list_all sent_by_id (requests st')))"

text \<open>Two fetched queries, and the state in which the example upload starts.\<close>

definition ex_fetched_lookup :: "string doc" where
  "ex_fetched_lookup =
     [''id'' \<mapsto> VOther ''3'', ''name'' \<mapsto> VStr ''Lookup'',
      ''options'' \<mapsto> VOptions \<lparr>parameters = None, o_rest = ''''\<rparr>,
      ''visualizations'' \<mapsto> VVisualizations [ex_server_table]]"

definition ex_fetched_report :: "string doc" where
  "ex_fetched_report =
     [''id'' \<mapsto> VOther ''4'', ''name'' \<mapsto> VStr ''Report'', ''schedule'' \<mapsto> PyNone,
      ''options'' \<mapsto> VOptions
         \<lparr>parameters = Some [\<lparr>p_type = ''text'', queryName = None, queryId = None,
                              p_rest = ''title''\<rparr>,
                             \<lparr>p_type = ''query'', queryName = None, queryId = Some 3,
                              p_rest = ''class''\<rparr>],
          o_rest = ''''\<rparr>,
      ''visualizations'' \<mapsto> VVisualizations [ex_server_table]]"

definition ex_initial :: "string pstate" where
  "ex_initial = \<lparr>saved_queries = ex_queries, existing_queries = Map.empty, requests = [],
                 logged = []\<rparr>"

text \<open>
  The requests that create or update the query of a given name, and a trace without them.
  The trace \<open>requests\<close> grows at its end, so an earlier request stands to the left.
\<close>

definition is_create :: "string \<Rightarrow> 'a request \<Rightarrow> bool" where
  "is_create n r = (case r of CreateQuery m _ \<Rightarrow> m = n | _ \<Rightarrow> False)"

definition is_update :: "string \<Rightarrow> 'a request \<Rightarrow> bool" where
  "is_update n r = (case r of UpdateQuery m _ _ \<Rightarrow> m = n | _ \<Rightarrow> False)"

definition query_request :: "string \<Rightarrow> 'a request \<Rightarrow> bool" where
  "query_request n r = (is_create n r \<or> is_update n r)"

definition quiet :: "string \<Rightarrow> 'a request list \<Rightarrow> bool" where
  "quiet n tr = list_all (\<lambda>r. \<not> query_request n r) tr"

definition uid :: "'a pstate \<Rightarrow> string \<Rightarrow> int option" where
  "uid st n = (case entry st n of None \<Rightarrow> None | Some q \<Rightarrow> q_uploaded_id q)"

definition param_list :: "'a q_options \<Rightarrow> 'a param list" where
  "param_list opts = (case parameters opts of None \<Rightarrow> [] | Some ps \<Rightarrow> ps)"

definition params0 :: "(string \<times> 'a saved_query) list \<Rightarrow> string \<Rightarrow> 'a param list" where
  "params0 sq n = (case map_of sq n of None \<Rightarrow> [] | Some q \<Rightarrow> param_list (q_options q))"

definition refers :: "(string \<times> 'a saved_query) list \<Rightarrow> string \<Rightarrow> nat \<Rightarrow> string \<Rightarrow> bool" where
  "refers sq n k dep =
     (k < length (params0 sq n) \<and> p_type (params0 sq n ! k) = ''query''
      \<and> queryName (params0 sq n ! k) = Some dep)"

definition acyclic_refs :: "(string \<Rightarrow> nat) \<Rightarrow> (string \<times> 'a saved_query) list \<Rightarrow> bool" where
  "acyclic_refs rank sq =
     (distinct (map fst sq)
      \<and> list_all
          (\<lambda>(n, q). q_uploaded_id q = None
             \<and> list_all
                 (\<lambda>p. case queryName p of
                        None \<Rightarrow> False
                      | Some dep \<Rightarrow> dep \<in> set (map fst sq) \<and> rank dep < rank n)
                 (query_parameters (q_options q)))
          sq)"

definition sent_param :: "'a saved_query \<Rightarrow> nat \<Rightarrow> 'a param option" where
  "sent_param d k =
     (if k < length (param_list (q_options d)) then Some (param_list (q_options d) ! k)
      else None)"

definition uploaded_once ::
  "(string \<rightharpoonup> remote_query) \<Rightarrow> string \<Rightarrow> int \<Rightarrow> 'a request list \<Rightarrow> bool" where
  "uploaded_once ex n i tr =
     (\<exists>pre d post. tr = pre @ UpdateQuery n i d # post \<and> quiet n post
        \<and> filter (query_request n) pre = (if ex n = None then [CreateQuery n d] else []))"

definition dep_before ::
  "(string \<times> 'a saved_query) list \<Rightarrow> string \<Rightarrow> 'a request list \<Rightarrow> bool" where
  "dep_before sq n tr =
     (\<forall>k dep. refers sq n k dep \<longrightarrow>
        (\<exists>pre i2 d2 post. tr = pre @ UpdateQuery dep i2 d2 # post
           \<and> quiet n pre \<and> quiet dep post
           \<and> (\<exists>iq dq. UpdateQuery n iq dq \<in> set post)
           \<and> (\<forall>iq dq. UpdateQuery n iq dq \<in> set post \<longrightarrow>
                 (\<exists>p. sent_param dq k = Some p \<and> queryId p = Some i2 \<and> queryName p = None))))"

definition run_inv ::
  "(string \<times> 'a saved_query) list \<Rightarrow> (string \<rightharpoonup> remote_query) \<Rightarrow> 'a pstate \<Rightarrow> bool" where
  "run_inv sq ex st =
     (map fst (saved_queries st) = map fst sq
      \<and> (\<forall>n\<in>set (map fst sq).
            case uid st n of
              None \<Rightarrow> quiet n (requests st) \<and> existing_queries st n = ex n
            | Some i \<Rightarrow> uploaded_once ex n i (requests st) \<and> dep_before sq n (requests st)))"

definition fresh :: "(string \<times> 'a saved_query) list \<Rightarrow> string set \<Rightarrow> 'a pstate \<Rightarrow> bool" where
  "fresh sq S st = (\<forall>n\<in>S. uid st n = None \<longrightarrow> entry st n = map_of sq n)"

definition frame ::
  "(string \<times> 'a saved_query) list \<Rightarrow> string set \<Rightarrow> string set \<Rightarrow> 'a pstate \<Rightarrow> 'a pstate
   \<Rightarrow> bool" where
  "frame sq X S st st' =
     (\<forall>m. m \<in> X \<or> entry st' m = entry st m
          \<or> (m \<in> S \<and> m \<in> set (map fst sq) \<and> uid st m = None \<and> uid st' m \<noteq> None))"

definition resolved_upto ::
  "(string \<times> 'a saved_query) list \<Rightarrow> string \<Rightarrow> nat \<Rightarrow> 'a pstate \<Rightarrow> bool" where
  "resolved_upto sq n k st =
     (uid st n = None \<and> entry st n \<noteq> None
      \<and> map p_type (params_of st n) = map p_type (params0 sq n)
      \<and> (\<forall>j dep. j < k \<longrightarrow> refers sq n j dep \<longrightarrow>
             queryId (params_of st n ! j) = uid st dep \<and> uid st dep \<noteq> None
             \<and> queryName (params_of st n ! j) = None)
      \<and> (\<forall>j. k \<le> j \<longrightarrow> j < length (params0 sq n) \<longrightarrow> params_of st n ! j = params0 sq n ! j))"

text \<open>The example's rank of a query, and a server that already holds \<open>Lookup\<close>.\<close>

definition ex_rank :: "string \<Rightarrow> nat" where
  "ex_rank n = (if n = ''Report'' then 1 else 0)"

definition ex_known :: "string \<rightharpoonup> remote_query" where
  "ex_known = [''Lookup'' \<mapsto> \<lparr>rq_id = 3, rq_visualizations = []\<rparr>]"

section \<open>Properties of the link templates\<close>

lemma strip_prefix_append: "strip_prefix xs (xs @ ys) = Some ys"
  by (induction xs) auto

lemma not_digit_dash: "\<not> is_digit (CHR ''-'')"
  by (simp add: is_digit_def)

lemma not_slug_question: "\<not> is_slug_char (CHR ''?'')"
  by (simp add: is_slug_char_def)

lemma query_part_query:
  assumes "r \<noteq> []" "newline \<notin> set r"
  shows "query_part (CHR ''?'' # r) = Some (CHR ''?'' # r)"
proof -
  from assms obtain d ds where r: "r = d # ds" by (cases r) auto
  have "takeWhile (\<lambda>x. x \<noteq> newline) r = r"
    using assms(2) by (simp add: takeWhile_eq_all_conv) metis
  then show ?thesis using assms(2) r by (auto simp: query_part_def)
qed

lemma dashboard_url_groups_form:
  assumes "ds \<noteq> []" "\<forall>c\<in>set ds. is_digit c" "slug \<noteq> []" "\<forall>c\<in>set slug. is_slug_char c"
    and "q = [] \<or> (\<exists>r. q = CHR ''?'' # r \<and> r \<noteq> [] \<and> newline \<notin> set r)"
  shows "dashboard_url_groups (''/dashboards/'' @ ds @ ''-'' @ slug @ q) = Some (slug, q)"
proof -
  have p: "strip_prefix ''/dashboards/'' (''/dashboards/'' @ ds @ ''-'' @ slug @ q)
           = Some (ds @ ''-'' @ slug @ q)"
    by (rule strip_prefix_append)
  have td: "takeWhile is_digit (ds @ ''-'' @ slug @ q) = ds"
    using assms(2) by (simp add: takeWhile_append2 not_digit_dash)
  have dd: "dropWhile is_digit (ds @ ''-'' @ slug @ q) = CHR ''-'' # slug @ q"
    using assms(2) by (simp add: dropWhile_append2 not_digit_dash)
  have ts: "takeWhile is_slug_char (slug @ q) = slug"
    using assms(4,5) by (auto simp: takeWhile_append2 not_slug_question)
  have ds: "dropWhile is_slug_char (slug @ q) = q"
    using assms(4,5) by (auto simp: dropWhile_append2 not_slug_question)
  have g: "dashboard_url_groups (''/dashboards/'' @ ds @ ''-'' @ slug @ q) =
             (case query_part q of
                Some q' \<Rightarrow> Some (slug, q')
              | None \<Rightarrow> if at_end q then Some (slug, []) else None)"
    unfolding dashboard_url_groups_def p option.case td dd list.case ts ds
    using assms(1,3) by simp
  show ?thesis
  proof (cases "q = []")
    case True
    then show ?thesis
      unfolding g by (simp add: query_part_def at_end_def)
  next
    case False
    with assms(5) obtain r where r: "q = CHR ''?'' # r" "r \<noteq> []" "newline \<notin> set r" by blast
    then have "query_part q = Some q" using query_part_query by simp
    then show ?thesis
      unfolding g by simp
  qed
qed

text \<open>
  C5. In the fetch direction the id of a link of the form
  \<open>/dashboards/<id>-<slug>\<close> should become \<open>0\<close> whether or not a query string follows.
  The pattern of \<open>fetch.py\<close> puts the slug inside the alternation with \<open>$\<close>, so it needs
  the query string: the link of the spec's example is rewritten, the same link without its
  query string keeps the id of the server.
\<close>

theorem anonymize_link_needs_query_string:
  "anonymize_link ''/dashboards/3-class-summary?p_class=1''
     = ''/dashboards/0-class-summary?p_class=1''
   \<and> anonymize_link ''/dashboards/3-class-summary'' = ''/dashboards/3-class-summary''"
  by (simp add: anonymize_link_def fetch_link_matches_def is_digit_def is_slug_char_def
      query_part_def at_end_def newline_def)

text \<open>
  C6. In the push direction, a url made of \<open>/dashboards/\<close>, a number, a dash, a slug
  (characters of \<open>[a-z0-9-]\<close>) and either nothing or a question mark followed by a
  query string without a newline: when a remote dashboard has the slug, the result is the
  url with the id of the first such dashboard in place of the number, and nothing is logged;
  when none has it, the result is the url itself and one error is logged. The function
  has no other outcome: it returns no exception.
\<close>

theorem fix_dashboard_url_id_resolves:
  assumes "ds \<noteq> []" "\<forall>c\<in>set ds. is_digit c" "slug \<noteq> []" "\<forall>c\<in>set slug. is_slug_char c"
    and "q = [] \<or> (\<exists>r. q = CHR ''?'' # r \<and> r \<noteq> [] \<and> newline \<notin> set r)"
  shows "fix_dashboard_url_id (''/dashboards/'' @ ds @ ''-'' @ slug @ q) existing_dashboards =
           (case find (\<lambda>d. d_slug d = slug) (map snd existing_dashboards) of
              Some d \<Rightarrow> (''/dashboards/'' @ str_int (d_id d) @ ''-'' @ slug @ q, [])
            | None \<Rightarrow>
                (''/dashboards/'' @ ds @ ''-'' @ slug @ q,
                 [LogError (''Could not find dashboard with slug '' @ slug
                            @ ''; list index out of range'')]))"
proof -
  have f: "(case [d_id d. d \<leftarrow> map snd xs, d_slug d = slug] of i # _ \<Rightarrow> A i | [] \<Rightarrow> B)
           = (case find (\<lambda>d. d_slug d = slug) (map snd xs) of Some d \<Rightarrow> A (d_id d) | None \<Rightarrow> B)"
    for xs :: "(string \<times> 'a remote_dashboard) list" and A :: "int \<Rightarrow> 'b" and B
    by (induction xs) auto
  show ?thesis
    unfolding fix_dashboard_url_id_def dashboard_url_groups_form [OF assms]
    by (simp only: option.case prod.case f)
qed

theorem fix_dashboard_url_id_resolves_witness:
  "fix_dashboard_url_id ''/dashboards/0-class-summary?p_class=1''
     [(''Other'', \<lparr>d_id = 4, d_slug = ''other'', d_widgets = []\<rparr>),
      (''Class Summary'', \<lparr>d_id = 7, d_slug = ''class-summary'', d_widgets = []\<rparr>)]
   = (''/dashboards/7-class-summary?p_class=1'', [])
   \<and> fix_dashboard_url_id ''/dashboards/0-class-summary?p_class=1''
     [(''Other'', \<lparr>d_id = 4, d_slug = ''other'', d_widgets = []\<rparr>)]
   = (''/dashboards/0-class-summary?p_class=1'',
      [LogError ''Could not find dashboard with slug class-summary; list index out of range''])"
  using fix_dashboard_url_id_resolves [of "''0''" "''class-summary''" "''?p_class=1''"
      "[(''Other'', \<lparr>d_id = 4, d_slug = ''other'', d_widgets = []\<rparr>),
      (''Class Summary'', \<lparr>d_id = 7, d_slug = ''class-summary'', d_widgets = []\<rparr>)]"]
    fix_dashboard_url_id_resolves [of "''0''" "''class-summary''" "''?p_class=1''"
      "[(''Other'', \<lparr>d_id = 4, d_slug = ''other'', d_widgets = []\<rparr>)]"]
  by (simp add: is_digit_def is_slug_char_def newline_def str_int_def str_nat.simps)


section \<open>Properties of the fetch pipeline\<close>

lemma field_changed_upd:
  "k \<noteq> f \<Longrightarrow> field_changed new (old(f \<mapsto> v)) k = field_changed new old k"
  by (simp add: field_changed_def py_get_def split: option.splits)

lemma store_query_fields_eq:
  "distinct fs \<Longrightarrow>
   store_query_fields fs query (m, a) =
     ((\<lambda>k. if k \<in> set fs \<and> field_changed query m k then query k else m k),
      a @ filter (field_changed query m) fs)"
proof (induction fs arbitrary: m a)
  case Nil
  then show ?case by simp
next
  case (Cons f fs)
  then have d: "f \<notin> set fs" "distinct fs" by simp_all
  show ?case
  proof (cases "field_changed query m f")
    case True
    then obtain v where v: "query f = Some v" "py_get m f \<noteq> v"
      by (auto simp: field_changed_def split: option.splits)
    have flt: "filter (field_changed query (m(f \<mapsto> v))) fs = filter (field_changed query m) fs"
      using d(1) by (intro filter_cong refl field_changed_upd) auto
    have "(\<lambda>k. if k \<in> set fs \<and> field_changed query (m(f \<mapsto> v)) k then query k
               else (m(f \<mapsto> v)) k)
          = (\<lambda>k. if k \<in> set (f # fs) \<and> field_changed query m k then query k else m k)"
      using d(1) True v by (auto simp: fun_eq_iff field_changed_upd)
    note fe = this
    have "store_query_fields (f # fs) query (m, a)
          = store_query_fields fs query (m(f \<mapsto> v), a @ [f])"
      using v by simp
    also have "\<dots> = ((\<lambda>k. if k \<in> set fs \<and> field_changed query (m(f \<mapsto> v)) k then query k
                          else (m(f \<mapsto> v)) k),
                     (a @ [f]) @ filter (field_changed query (m(f \<mapsto> v))) fs)"
      by (rule Cons.IH [OF d(2)])
    finally show ?thesis
      unfolding fe flt using True by simp
  next
    case False
    have "(\<lambda>k. if k \<in> set fs \<and> field_changed query m k then query k else m k)
          = (\<lambda>k. if k \<in> set (f # fs) \<and> field_changed query m k then query k else m k)"
      using False by (auto simp: fun_eq_iff)
    then show ?thesis
      using False Cons.IH [OF d(2), of m a]
      by (auto simp: field_changed_def split: option.splits)
  qed
qed

lemma store_dashboard_fields_eq:
  "distinct fs \<Longrightarrow> \<forall>i\<in>set fs. dashboard i \<noteq> None \<Longrightarrow>
   store_dashboard_fields fs dashboard (m, a) =
     Inr ((\<lambda>k. if k \<in> set fs \<and> field_changed dashboard m k then dashboard k else m k),
          a @ filter (field_changed dashboard m) fs)"
proof (induction fs arbitrary: m a)
  case Nil
  then show ?case by simp
next
  case (Cons f fs)
  then have d: "f \<notin> set fs" "distinct fs" "\<forall>i\<in>set fs. dashboard i \<noteq> None" by simp_all
  from Cons.prems obtain v where v: "dashboard f = Some v" by auto
  show ?case
  proof (cases "field_changed dashboard m f")
    case True
    then have ne: "py_get m f \<noteq> v" using v
      by (auto simp: field_changed_def)
    have flt: "filter (field_changed dashboard (m(f \<mapsto> v))) fs = filter (field_changed dashboard m) fs"
      using d(1) by (intro filter_cong refl field_changed_upd) auto
    have "(\<lambda>k. if k \<in> set fs \<and> field_changed dashboard (m(f \<mapsto> v)) k then dashboard k
               else (m(f \<mapsto> v)) k)
          = (\<lambda>k. if k \<in> set (f # fs) \<and> field_changed dashboard m k then dashboard k else m k)"
      using d(1) True v by (auto simp: fun_eq_iff field_changed_upd)
    note fe = this
    have "store_dashboard_fields (f # fs) dashboard (m, a)
          = store_dashboard_fields fs dashboard (m(f \<mapsto> v), a @ [f])"
      using v ne by (simp add: py_item_def)
    also have "\<dots> = Inr ((\<lambda>k. if k \<in> set fs \<and> field_changed dashboard (m(f \<mapsto> v)) k
                              then dashboard k else (m(f \<mapsto> v)) k),
                     (a @ [f]) @ filter (field_changed dashboard (m(f \<mapsto> v))) fs)"
      by (rule Cons.IH [OF d(2,3)])
    finally show ?thesis
      unfolding fe flt using True by simp
  next
    case False
    have "(\<lambda>k. if k \<in> set fs \<and> field_changed dashboard m k then dashboard k else m k)
          = (\<lambda>k. if k \<in> set (f # fs) \<and> field_changed dashboard m k then dashboard k else m k)"
      using False by (auto simp: fun_eq_iff)
    then show ?thesis
      using False v Cons.IH [OF d(2,3), of m a]
      by (auto simp: field_changed_def py_item_def)
  qed
qed

lemma distinct_QUERY_META_FIELDS: "distinct QUERY_META_FIELDS"
  by (simp add: QUERY_META_FIELDS_def)

lemma distinct_DASHBOARD_FIELDS: "distinct DASHBOARD_FIELDS"
  by (simp add: DASHBOARD_FIELDS_def)

text \<open>
  C8. The loop over the allow-listed query fields assigns exactly the fields that the
  fetched query has and whose fetched value differs from the stored one (an absent stored
  value reads as \<open>None\<close>), and the resulting document is the stored one with these fields
  replaced; a field whose stored value equals the fetched one is not assigned. The loop
  over the allow-listed dashboard fields does the same, for a fetched dashboard that has
  all the fields.
\<close>

theorem merge_on_change:
  "store_query_fields QUERY_META_FIELDS query (metadata, []) =
     ((\<lambda>k. if k \<in> set QUERY_META_FIELDS \<and> field_changed query metadata k
           then query k else metadata k),
      filter (field_changed query metadata) QUERY_META_FIELDS)
   \<and> ((\<forall>i\<in>set DASHBOARD_FIELDS. dashboard i \<noteq> None) \<longrightarrow>
        store_dashboard_fields DASHBOARD_FIELDS dashboard (dashboard_data, []) =
          Inr ((\<lambda>k. if k \<in> set DASHBOARD_FIELDS \<and> field_changed dashboard dashboard_data k
                    then dashboard k else dashboard_data k),
               filter (field_changed dashboard dashboard_data) DASHBOARD_FIELDS))"
  using store_query_fields_eq [OF distinct_QUERY_META_FIELDS, of query metadata "[]"]
    store_dashboard_fields_eq [OF distinct_DASHBOARD_FIELDS, of dashboard dashboard_data "[]"]
  by simp

theorem merge_on_change_witness:
  "map_sum id snd (store_dashboard_fields DASHBOARD_FIELDS ex_dashboard (ex_dashboard_data, []))
       = Inr [''is_draft'', ''tags'']"
  using merge_on_change [of ex_dashboard ex_dashboard_data ex_dashboard ex_dashboard_data]
  by (simp add: DASHBOARD_FIELDS_def ex_dashboard_def ex_dashboard_data_def py_get_def
      field_changed_def)

section \<open>Properties of the dashboard reconciliation\<close>

lemma add_widgets_step_unresolved:
  assumes "w_visualization w = Some r" "map_of saved (wr_queryName r) = Some query"
    "find (\<lambda>i. v_name i = wr_name r) (q_visualizations query) = None"
  shows "add_widgets saved did (w # ws) (err, reqs, lg)
         = add_widgets saved did ws (True, reqs, lg @ not_found_log r)"
  using assms by simp

lemma add_widgets_eq:
  "\<forall>w\<in>set ws. \<not> widget_raises saved w \<Longrightarrow>
   add_widgets saved did ws (err, reqs, lg) =
     Inr (err \<or> (\<exists>w\<in>set ws. widget_unresolved saved w),
          reqs @ concat (map (widget_requests saved did) ws),
          lg @ concat (map (widget_log saved) ws))"
proof (induction ws arbitrary: err reqs lg)
  case Nil
  then show ?case by simp
next
  case (Cons w ws)
  then have nr: "\<not> widget_raises saved w" and rest: "\<forall>w\<in>set ws. \<not> widget_raises saved w"
    by simp_all
  from nr obtain r query where r: "w_visualization w = Some r"
      "map_of saved (wr_queryName r) = Some query"
    by (auto simp: widget_raises_def split: option.splits)
  show ?case
  proof (cases "find (\<lambda>i. v_name i = wr_name r) (q_visualizations query)")
    case None
    then have u: "widget_unresolved saved w" "widget_requests saved did w = []"
        "widget_log saved w = not_found_log r"
      using r by (simp_all add: widget_unresolved_def widget_requests_def widget_log_def
          find_visualization_def)
    show ?thesis
      using r None u Cons.IH [OF rest, of True reqs "lg @ not_found_log r"] by simp
  next
    case (Some v)
    with nr r obtain vid where vid: "v_uploaded_id v = Some vid"
      by (auto simp: widget_raises_def find_visualization_def)
    have u: "\<not> widget_unresolved saved w"
        "widget_requests saved did w = [CreateWidget did vid (w_text w) (w_options w)]"
        "widget_log saved w = []"
      using r Some vid by (simp_all add: widget_unresolved_def widget_requests_def
          widget_log_def find_visualization_def)
    show ?thesis
      using r Some vid u
        Cons.IH [OF rest, of err "reqs @ [CreateWidget did vid (w_text w) (w_options w)]" lg]
      by simp
  qed
qed

lemma add_widgets_raises:
  "\<exists>w\<in>set ws. widget_raises saved w \<Longrightarrow> \<exists>k. add_widgets saved did ws acc = Inl (KeyError k)"
proof (induction ws arbitrary: acc)
  case Nil
  then show ?case by simp
next
  case (Cons w ws)
  obtain err reqs lg where acc: "acc = (err, reqs, lg)" by (cases acc) auto
  show ?case
  proof (cases "widget_raises saved w")
    case True
    then show ?thesis unfolding acc
      by (auto simp: widget_raises_def find_visualization_def split: option.splits)
  next
    case False
    with Cons.prems have "\<exists>w\<in>set ws. widget_raises saved w" by simp
    from Cons.IH [OF this] show ?thesis unfolding acc
      by (auto split: option.splits)
  qed
qed

lemma delete_widgets_eq:
  "\<forall>rw\<in>set ws. rw_visualization rw \<noteq> None \<Longrightarrow>
   delete_widgets ws reqs = Inr (reqs @ map (\<lambda>rw. DeleteWidget (rw_id rw)) ws)"
  by (induction ws arbitrary: reqs) auto

lemma delete_widgets_raises:
  "\<exists>rw\<in>set ws. rw_visualization rw = None \<Longrightarrow> \<exists>k. delete_widgets ws reqs = Inl (KeyError k)"
  by (induction ws arbitrary: reqs) (auto split: option.splits)

lemma add_widgets_keyerror:
  "add_widgets saved did ws acc = Inl e \<Longrightarrow> \<exists>k. e = KeyError k"
proof (induction ws arbitrary: acc)
  case Nil
  then show ?case by simp
next
  case (Cons w ws)
  obtain err reqs lg where acc: "acc = (err, reqs, lg)" by (cases acc) auto
  from Cons.prems Cons.IH show ?case
    unfolding acc by (auto split: option.splits)
qed

lemma delete_widgets_keyerror:
  "delete_widgets ws reqs = Inl e \<Longrightarrow> \<exists>k. e = KeyError k"
  by (induction ws arbitrary: reqs) (auto split: option.splits)

lemma update_each_dashboard_eq:
  "\<forall>d\<in>set sds. \<not> dashboard_raises eds saved d \<Longrightarrow>
   update_each_dashboard sds eds saved (err, reqs, lg) =
     Inr (err \<or> any_unresolved saved sds,
          reqs @ concat (map (dashboard_requests eds saved) sds),
          lg @ concat (map (dashboard_log saved) sds))"
proof (induction sds arbitrary: err reqs lg)
  case Nil
  then show ?case by (simp add: any_unresolved_def)
next
  case (Cons d sds)
  obtain name sd where d: "d = (name, sd)" by (cases d) auto
  from Cons.prems have nr: "\<not> dashboard_raises eds saved d"
    and rest: "\<forall>d\<in>set sds. \<not> dashboard_raises eds saved d" by simp_all
  from nr obtain ed where ed: "map_of eds name = Some ed"
      "\<forall>rw\<in>set (d_widgets ed). rw_visualization rw \<noteq> None"
      "\<forall>w\<in>set (sd_widgets sd). \<not> widget_raises saved w"
    unfolding d by (auto simp: dashboard_raises_def split: option.splits)
  have dr: "dashboard_requests eds saved (name, sd)
            = map (\<lambda>rw. DeleteWidget (rw_id rw)) (d_widgets ed)
              @ concat (map (widget_requests saved (d_id ed)) (sd_widgets sd))"
    using ed(1) by (simp add: dashboard_requests_def)
  have au: "any_unresolved saved ((name, sd) # sds)
            = ((\<exists>w\<in>set (sd_widgets sd). widget_unresolved saved w) \<or> any_unresolved saved sds)"
    by (simp add: any_unresolved_def)
  show ?case
    unfolding d update_each_dashboard.simps
    using ed(1) delete_widgets_eq [OF ed(2), of reqs]
      add_widgets_eq [OF ed(3), of "d_id ed" err]
      Cons.IH [OF rest]
    by (simp add: dr au dashboard_log_def)
qed

lemma update_each_dashboard_raises:
  "\<exists>d\<in>set sds. dashboard_raises eds saved d \<Longrightarrow>
   \<exists>k. update_each_dashboard sds eds saved acc = Inl (KeyError k)"
proof (induction sds arbitrary: acc)
  case Nil
  then show ?case by simp
next
  case (Cons d sds)
  obtain name sd where d: "d = (name, sd)" by (cases d) auto
  obtain err reqs lg where acc: "acc = (err, reqs, lg)" by (cases acc) auto
  show ?case
  proof (cases "dashboard_raises eds saved d")
    case True
    show ?thesis
    proof (cases "map_of eds name")
      case None
      then show ?thesis unfolding d acc by simp
    next
      case (Some ed)
      show ?thesis
      proof (cases "\<exists>rw\<in>set (d_widgets ed). rw_visualization rw = None")
        case True
        from delete_widgets_raises [OF this, of reqs] Some show ?thesis
          unfolding d acc by auto
      next
        case False
        then have dw: "delete_widgets (d_widgets ed) reqs
                       = Inr (reqs @ map (\<lambda>rw. DeleteWidget (rw_id rw)) (d_widgets ed))"
          by (intro delete_widgets_eq) auto
        from False True Some have "\<exists>w\<in>set (sd_widgets sd). widget_raises saved w"
          by (auto simp: dashboard_raises_def d)
        from add_widgets_raises [OF this] obtain k where
          "add_widgets saved (d_id ed) (sd_widgets sd)
             (err, reqs @ map (\<lambda>rw. DeleteWidget (rw_id rw)) (d_widgets ed), lg)
           = Inl (KeyError k)"
          by blast
        with Some dw show ?thesis
          unfolding d acc by simp
      qed
    qed
  next
    case False
    with Cons.prems have r: "\<exists>d\<in>set sds. dashboard_raises eds saved d" by simp
    from False obtain ed where ed: "map_of eds name = Some ed"
        "\<forall>rw\<in>set (d_widgets ed). rw_visualization rw \<noteq> None"
        "\<forall>w\<in>set (sd_widgets sd). \<not> widget_raises saved w"
      unfolding d by (auto simp: dashboard_raises_def split: option.splits)
    show ?thesis
      unfolding d acc
      using ed(1) delete_widgets_eq [OF ed(2), of reqs]
        add_widgets_eq [OF ed(3), of "d_id ed" err] Cons.IH [OF r]
      by simp
  qed
qed

lemmas ex_defs = ex_chart_def ex_queries_def ex_server_def ex_widget_def ex_saved_dashboards_def
  ex_remote_dashboards_def ex_sources_def

lemma ex_upload:
  "upload_queries ex_server ex_remote_dashboards 10
     \<lparr>saved_queries = ex_queries, existing_queries = Map.empty,
      requests = [UpdateDashboard 7 (VOther ''false'') (VOther ''[]'') (VOther ''false'')],
      logged = []\<rparr> = Inr ex_uploaded"
  unfolding ex_uploaded_def
  by (simp add: ex_defs upload_queries_def numeral_nat send_query_def upload_visualization_def
      param_at_def set_query_id_def dict_of_list_def fix_dashboard_url_id_def
      dashboard_url_groups_def is_digit_def is_slug_char_def query_part_def at_end_def
      newline_def str_int_def str_nat.simps)


lemmas eval_defs = upload_queries_def numeral_nat send_query_def upload_visualization_def
  param_at_def set_query_id_def dict_of_list_def fix_dashboard_url_id_def
  dashboard_url_groups_def is_digit_def is_slug_char_def query_part_def at_end_def
  newline_def str_int_def str_nat.simps update_dashboards_def not_found_log_def
  find_data_source_def push_def py_item_def

lemmas widget_defs = dashboard_raises_def widget_raises_def find_visualization_def
  widget_unresolved_def widget_requests_def widget_log_def dashboard_requests_def
  dashboard_log_def any_unresolved_def

lemma update_dashboards_eq:
  assumes "\<forall>d\<in>set sds. \<not> dashboard_raises eds saved d"
  shows "update_dashboards sds eds saved (reqs, lg) =
           Inr (if any_unresolved saved sds then 1 else 0,
                reqs @ concat (map (dashboard_requests eds saved) sds),
                lg @ concat (map (dashboard_log saved) sds)
                  @ [LogInfo (if any_unresolved saved sds
                              then ''Dashboards loaded with errors. See above for details.''
                              else ''Dashboards loaded'')])"
  unfolding update_dashboards_def
  using update_each_dashboard_eq [OF assms, of False reqs lg] by simp

lemma sorted_saved_widgets:
  "sorted (map (\<lambda>w. (pos_row (w_options w), pos_col (w_options w))) (saved_widgets ws))"
proof -
  have "map (\<lambda>w. (pos_row (w_options w), pos_col (w_options w))) (saved_widgets ws)
        = map (\<lambda>i. (pos_row (rw_options i), pos_col (rw_options i)))
            (sort_key (\<lambda>i. (pos_row (rw_options i), pos_col (rw_options i))) ws)"
    by (simp add: saved_widgets_def filtered_widget_def comp_def)
  then show ?thesis by simp
qed

text \<open>
  C3, as the code has it. When nothing raises (every saved dashboard exists on the server,
  every remote widget carries a visualization, and every saved widget names a saved query
  and, if its visualization is found, an uploaded one), the requests of
  \<open>update_dashboards\<close> are, dashboard after dashboard in saved order: a delete request
  for every widget of the remote dashboard, then a create request for every saved widget
  whose visualization is found among the visualizations of its saved query, in saved order;
  a saved widget whose visualization is not found gets no request. The widgets that fetch
  stores are in increasing (row, column) order.
\<close>

theorem widgets_deleted_then_created:
  assumes "\<forall>d\<in>set saved_dashboards. \<not> dashboard_raises existing_dashboards saved d"
  shows "map_sum id (fst \<circ> snd)
           (update_dashboards saved_dashboards existing_dashboards saved (reqs, lg))
         = Inr (reqs @ concat (map (dashboard_requests existing_dashboards saved)
                                saved_dashboards))
         \<and> sorted (map (\<lambda>w. (pos_row (w_options w), pos_col (w_options w)))
                    (saved_widgets ws))"
  using update_dashboards_eq [OF assms, of reqs lg] sorted_saved_widgets [of ws] by simp

theorem widgets_deleted_then_created_witness:
  "map_sum id (fst \<circ> snd)
     (update_dashboards ex_saved_dashboards ex_remote_dashboards (saved_queries ex_uploaded)
        ([], []))
   = Inr [DeleteWidget 11, CreateWidget 7 206 [] \<lparr>pos_row = 0, pos_col = 0, wo_rest = []\<rparr>]"
proof -
  have ok: "\<forall>d\<in>set ex_saved_dashboards.
       \<not> dashboard_raises ex_remote_dashboards (saved_queries ex_uploaded) d"
    unfolding ex_uploaded_def by (simp add: ex_defs eval_defs widget_defs)
  have "concat (map (dashboard_requests ex_remote_dashboards (saved_queries ex_uploaded))
                 ex_saved_dashboards)
        = [DeleteWidget 11, CreateWidget 7 206 [] \<lparr>pos_row = 0, pos_col = 0, wo_rest = []\<rparr>]"
    unfolding ex_uploaded_def by (simp add: ex_defs eval_defs widget_defs)
  with widgets_deleted_then_created [OF ok, of "[]" "[]" "[]"] show ?thesis
    by (simp only: append_Nil) blast
qed

text \<open>
  C3 as stated asks for one create request per saved widget. The dashboard of the example
  has two saved widgets; the visualization of the second is not found, and one widget is
  created.
\<close>

theorem one_create_per_saved_widget_counterexample:
  "length (sd_widgets (snd (hd ex_saved_dashboards))) = 2
   \<and> map_sum id (fst \<circ> snd)
       (update_dashboards ex_saved_dashboards ex_remote_dashboards (saved_queries ex_uploaded)
          ([], []))
     = Inr [DeleteWidget 11,
            CreateWidget 7 206 [] \<lparr>pos_row = 0, pos_col = 0, wo_rest = []\<rparr>]"
  unfolding ex_uploaded_def by (simp add: ex_defs eval_defs)

text \<open>
  C4. When nothing raises, \<open>update_dashboards\<close> returns 1 if some saved widget is
  unresolved (its query is saved, its visualization is not among the visualizations of the
  query) and 0 otherwise; in both cases it deletes the widgets of every remote dashboard and
  creates every saved widget whose visualization is found, so only the unresolved widgets
  are skipped. A run of \<open>push\<close> that gets that far exits with the same status.
\<close>

theorem unresolved_widgets_fail_the_run:
  assumes "\<forall>d\<in>set saved_dashboards. \<not> dashboard_raises eds saved d"
  shows "update_dashboards saved_dashboards eds saved (reqs, lg) =
           Inr (if any_unresolved saved saved_dashboards then 1 else 0,
                reqs @ concat (map (dashboard_requests eds saved) saved_dashboards),
                lg @ concat (map (dashboard_log saved) saved_dashboards)
                  @ [LogInfo (if any_unresolved saved saved_dashboards
                              then ''Dashboards loaded with errors. See above for details.''
                              else ''Dashboards loaded'')])
         \<and> (find_data_source sources datasource_name = Inr datasource
            \<longrightarrow> create_missing_dashboards srv saved_dashboards (existing_dashboards, [])
                  = Inr (eds, reqs0)
            \<longrightarrow> upload_queries srv eds depth
                  \<lparr>saved_queries = load_saved_queries datasource, existing_queries = existing,
                   requests = reqs0, logged = []\<rparr> = Inr st
            \<longrightarrow> saved_queries st = saved
            \<longrightarrow> push srv depth sources datasource_name existing_dashboards saved_dashboards
                  existing load_saved_queries
                = Inr (if any_unresolved saved saved_dashboards then 1 else 0))"
proof (intro conjI impI)
  show "update_dashboards saved_dashboards eds saved (reqs, lg) =
           Inr (if any_unresolved saved saved_dashboards then 1 else 0,
                reqs @ concat (map (dashboard_requests eds saved) saved_dashboards),
                lg @ concat (map (dashboard_log saved) saved_dashboards)
                  @ [LogInfo (if any_unresolved saved saved_dashboards
                              then ''Dashboards loaded with errors. See above for details.''
                              else ''Dashboards loaded'')])"
    by (rule update_dashboards_eq [OF assms])
next
  assume a: "find_data_source sources datasource_name = Inr datasource"
    "create_missing_dashboards srv saved_dashboards (existing_dashboards, []) = Inr (eds, reqs0)"
    "upload_queries srv eds depth
       \<lparr>saved_queries = load_saved_queries datasource, existing_queries = existing,
        requests = reqs0, logged = []\<rparr> = Inr st"
    "saved_queries st = saved"
  show "push srv depth sources datasource_name existing_dashboards saved_dashboards
          existing load_saved_queries
        = Inr (if any_unresolved saved saved_dashboards then 1 else 0)"
    unfolding push_def using a update_dashboards_eq [OF assms, of "requests st" "logged st"]
    by simp
qed

theorem unresolved_widgets_fail_the_run_witness:
  "any_unresolved (saved_queries ex_uploaded) ex_saved_dashboards
   \<and> push ex_server 10 ex_sources None ex_remote_dashboards ex_saved_dashboards Map.empty
       (\<lambda>d. ex_queries) = Inr 1
   \<and> push ex_server 10 ex_sources None ex_remote_dashboards [] Map.empty
       (\<lambda>d. ex_queries) = Inr 0"
proof -
  have ok: "\<forall>d\<in>set ex_saved_dashboards.
       \<not> dashboard_raises ex_remote_dashboards (saved_queries ex_uploaded) d"
    unfolding ex_uploaded_def by (simp add: ex_defs eval_defs widget_defs)
  have un: "any_unresolved (saved_queries ex_uploaded) ex_saved_dashboards"
    unfolding ex_uploaded_def by (simp add: ex_defs eval_defs widget_defs)
  have ds: "find_data_source ex_sources None = Inr \<lparr>ds_name = ''warehouse'', ds_type = ''pg'', ds_id = 1\<rparr>"
    by (simp add: ex_defs eval_defs)
  have cm: "create_missing_dashboards ex_server ex_saved_dashboards (ex_remote_dashboards, [])
            = Inr (ex_remote_dashboards,
                   [UpdateDashboard 7 (VOther ''false'') (VOther ''[]'') (VOther ''false'')])"
    by (simp add: ex_defs eval_defs)
  have cm0: "create_missing_dashboards ex_server [] (ex_remote_dashboards, [])
            = Inr (ex_remote_dashboards, [])"
    by simp
  have up0: "upload_queries ex_server ex_remote_dashboards 10
     \<lparr>saved_queries = ex_queries, existing_queries = Map.empty,
      requests = [], logged = []\<rparr>
     = Inr (projr (upload_queries ex_server ex_remote_dashboards 10
     \<lparr>saved_queries = ex_queries, existing_queries = Map.empty,
      requests = [], logged = []\<rparr>))"
    by (simp add: ex_defs eval_defs)
  from unresolved_widgets_fail_the_run [OF ok, of "[]" "[]" ex_sources None _ ex_server
      ex_remote_dashboards _ 10 "\<lambda>d. ex_queries" Map.empty ex_uploaded] ds cm ex_upload
  have p1: "push ex_server 10 ex_sources None ex_remote_dashboards ex_saved_dashboards Map.empty
       (\<lambda>d. ex_queries) = Inr 1"
    using un by simp
  from unresolved_widgets_fail_the_run [of "[]" ex_remote_dashboards _ "[]" "[]" ex_sources None _
      ex_server ex_remote_dashboards "[]" 10 "\<lambda>d. ex_queries" Map.empty] ds cm0 up0
  have p0: "push ex_server 10 ex_sources None ex_remote_dashboards [] Map.empty
       (\<lambda>d. ex_queries) = Inr 0"
    by (simp add: any_unresolved_def)
  from un p1 p0 show ?thesis by simp
qed

lemma find_None_names:
  "(find (\<lambda>i. v_name i = n) xs = None) = (n \<notin> set (map v_name xs))"
  by (induction xs) auto

lemma v_name_strip_visualization [simp]: "v_name (strip_visualization v) = v_name v"
  by (simp add: strip_visualization_def)

lemma v_name_default_table [simp]: "v_name default_table = ''Table''"
  by (simp add: default_table_def)

lemma Table_not_persisted:
  assumes "\<forall>v\<in>set vs. v_name v = ''Table'' \<longrightarrow> strip_visualization v = default_table"
  shows "''Table'' \<notin> set (map v_name (persisted_visualizations vs))"
proof
  assume "''Table'' \<in> set (map v_name (persisted_visualizations vs))"
  then obtain v where v: "v \<in> set vs" "strip_visualization v \<noteq> default_table"
      "v_name (strip_visualization v) = ''Table''"
    by (auto simp: persisted_visualizations_def)
  with assms show False by simp
qed

text \<open>
  C9, as the code has it. Take a saved widget that refers to the visualization \<open>Table\<close>
  of a saved query whose visualizations are the ones fetch persisted, where every fetched
  visualization named \<open>Table\<close> was the unmodified default (so fetch dropped it). Push
  does not synthesize the default: the widget gets no create request, the error and the
  note about the default \<open>Table\<close> visualization are logged, and \<open>update_dashboards\<close>
  returns 1.
\<close>

theorem default_table_widget_is_skipped:
  assumes "\<forall>d\<in>set saved_dashboards. \<not> dashboard_raises eds saved d"
    and "d \<in> set saved_dashboards" and "w \<in> set (sd_widgets (snd d))"
    and "w_visualization w = Some \<lparr>wr_name = ''Table'', wr_queryName = query_name\<rparr>"
    and "map_of saved query_name = Some query"
    and "map v_name (q_visualizations query) = map v_name (persisted_visualizations vs)"
    and "\<forall>v\<in>set vs. v_name v = ''Table'' \<longrightarrow> strip_visualization v = default_table"
  shows "widget_requests saved dashboard_id w = []
         \<and> widget_log saved w = not_found_log \<lparr>wr_name = ''Table'', wr_queryName = query_name\<rparr>
         \<and> map_sum id fst (update_dashboards saved_dashboards eds saved (reqs, lg)) = Inr 1"
proof -
  have "''Table'' \<notin> set (map v_name (q_visualizations query))"
    using Table_not_persisted [OF assms(7)] assms(6) by simp
  then have nf: "find_visualization saved \<lparr>wr_name = ''Table'', wr_queryName = query_name\<rparr> = None"
    using assms(5) by (simp add: find_visualization_def find_None_names)
  then have un: "widget_unresolved saved w"
    using assms(4,5) by (simp add: widget_unresolved_def)
  then have "any_unresolved saved saved_dashboards"
    using assms(2,3) by (auto simp: any_unresolved_def)
  then have "map_sum id fst (update_dashboards saved_dashboards eds saved (reqs, lg)) = Inr 1"
    using update_dashboards_eq [OF assms(1), of reqs lg] by simp
  then show ?thesis
    using nf un assms(4) by (simp add: widget_requests_def widget_log_def)
qed

lemma persisted_ex_server_table: "persisted_visualizations [ex_server_table] = []"
  by (simp add: persisted_visualizations_def strip_visualization_def ex_server_table_def
      default_table_def)

theorem default_table_widget_is_skipped_witness:
  "widget_requests [(''Report'', ex_plain_query)] 7 (ex_widget ''Table'' 0) = []
   \<and> map_sum id fst
       (update_dashboards ex_table_board ex_remote_dashboards [(''Report'', ex_plain_query)]
          ([], [])) = Inr 1"
proof -
  have "\<forall>d\<in>set ex_table_board.
          \<not> dashboard_raises ex_remote_dashboards [(''Report'', ex_plain_query)] d"
    by (simp add: ex_table_board_def ex_widget_def ex_remote_dashboards_def ex_plain_query_def
        persisted_ex_server_table widget_defs)
  from default_table_widget_is_skipped [OF this, of "(''Board'', \<lparr>sd_fields = Map.empty, sd_widgets = [ex_widget ''Table'' 0]\<rparr>)"
      "ex_widget ''Table'' 0" "''Report''" ex_plain_query "[ex_server_table]" 7 "[]" "[]"]
  show ?thesis
    by (simp add: ex_table_board_def ex_widget_def ex_plain_query_def
        strip_visualization_def ex_server_table_def default_table_def)
qed

text \<open>
  C9 as stated says the widget does not fail. For a query whose only visualization is the
  default \<open>Table\<close> of the server, fetch persists no visualization, and a dashboard whose
  only widget shows that \<open>Table\<close> is pushed with no create request and status 1.
\<close>

theorem default_table_not_synthesized_counterexample:
  "persisted_visualizations [ex_server_table] = []
   \<and> update_dashboards ex_table_board ex_remote_dashboards [(''Report'', ex_plain_query)]
       ([], [])
     = Inr (1, [DeleteWidget 11],
            not_found_log \<lparr>wr_name = ''Table'', wr_queryName = ''Report''\<rparr>
            @ [LogInfo ''Dashboards loaded with errors. See above for details.''])"
  by (simp add: persisted_ex_server_table ex_table_board_def ex_widget_def
      ex_remote_dashboards_def ex_plain_query_def update_dashboards_def)

text \<open>
  C10. If a widget of a saved dashboard names a query that is not a key of the saved
  queries, \<open>update_dashboards\<close> ends with a \<open>KeyError\<close> (every exception it can
  raise is one); whereas for a saved query of that name without a visualization of the
  widget's name, the loop sets the error flag, logs, and goes on with the next widget.
\<close>

theorem missing_query_raises_key_error:
  assumes "d \<in> set saved_dashboards" and "w \<in> set (sd_widgets (snd d))"
    and "w_visualization w = Some r" and "map_of saved (wr_queryName r) = None"
  shows "(\<exists>k. update_dashboards saved_dashboards eds saved acc = Inl (KeyError k))
         \<and> (\<forall>saved2 query ws did err reqs lg.
               map_of saved2 (wr_queryName r) = Some query
               \<longrightarrow> find (\<lambda>i. v_name i = wr_name r) (q_visualizations query) = None
               \<longrightarrow> add_widgets saved2 did (w # ws) (err, reqs, lg)
                     = add_widgets saved2 did ws (True, reqs, lg @ not_found_log r))"
proof -
  have "widget_raises saved w"
    using assms(3,4) by (simp add: widget_raises_def)
  then have "\<exists>d\<in>set saved_dashboards. dashboard_raises eds saved d"
    using assms(1,2) by (auto simp: dashboard_raises_def split: option.splits)
  from update_each_dashboard_raises [OF this, of "(False, fst acc, snd acc)"]
  have "\<exists>k. update_dashboards saved_dashboards eds saved acc = Inl (KeyError k)"
    by (auto simp: update_dashboards_def)
  then show ?thesis
    using assms(3) by (simp add: add_widgets_step_unresolved)
qed

theorem missing_query_raises_key_error_witness:
  "update_dashboards ex_gone_board ex_remote_dashboards [(''Report'', ex_plain_query)] ([], [])
     = Inl (KeyError ''Gone'')"
proof -
  have e: "update_dashboards ex_gone_board ex_remote_dashboards [(''Report'', ex_plain_query)]
             ([], []) = Inl (KeyError ''Gone'')"
    by (simp add: ex_gone_board_def ex_remote_dashboards_def update_dashboards_def)
  from missing_query_raises_key_error [of "hd ex_gone_board" ex_gone_board
      "hd (sd_widgets (snd (hd ex_gone_board)))" "\<lparr>wr_name = ''Chart'', wr_queryName = ''Gone''\<rparr>"
      "[(''Report'', ex_plain_query)]" ex_remote_dashboards "([], [])"]
  have "\<exists>k. update_dashboards ex_gone_board ex_remote_dashboards [(''Report'', ex_plain_query)]
             ([], []) = Inl (KeyError k)"
    by (simp add: ex_gone_board_def)
  with e show ?thesis by simp
qed

section \<open>Properties of the references between queries\<close>

lemma ids_to_names_holds:
  "ids_to_names queries ps = Inr ps' \<Longrightarrow>
   list_all holds_name (filter (\<lambda>p. p_type p = ''query'') ps')"
proof (induction ps arbitrary: ps')
  case Nil
  then show ?case by simp
next
  case (Cons p ps)
  from Cons.prems obtain p1 ps1 where
    r: "ids_to_names queries ps = Inr ps1" "ps' = p1 # ps1"
    and p1: "p_type p = ''query'' \<longrightarrow> holds_name p1" "p_type p1 = p_type p"
    by (auto simp: holds_name_def py_item_def
        split: if_splits option.splits sum.splits fvalue.splits)
  with Cons.IH [OF r(1)] show ?case by simp
qed

lemma options_is_meta_field: "''options'' \<in> set QUERY_META_FIELDS"
  by (simp add: QUERY_META_FIELDS_def)

lemma stored_options:
  assumes "query ''options'' = Some (VOptions opts)"
  shows "fst (store_query_fields QUERY_META_FIELDS query (metadata, [])) ''options''
         = Some (VOptions opts)"
proof -
  have "fst (store_query_fields QUERY_META_FIELDS query (metadata, [])) ''options''
        = (if field_changed query metadata ''options'' then query ''options''
           else metadata ''options'')"
    using options_is_meta_field
    by (simp add: store_query_fields_eq [OF distinct_QUERY_META_FIELDS])
  moreover have "\<not> field_changed query metadata ''options''
                 \<Longrightarrow> metadata ''options'' = Some (VOptions opts)"
    using assms by (auto simp: field_changed_def py_get_def split: option.splits)
  ultimately show ?thesis using assms by auto
qed

lemma save_query_metadata_by_name:
  assumes "save_query_metadata queries metadata query = Inr (md, assigned)"
  shows "persisted_by_name md"
proof -
  from assms obtain opts where o: "query ''options'' = Some (VOptions opts)"
    by (auto simp: save_query_metadata_def py_item_def split: option.splits fvalue.splits)
  from assms o obtain ps' where
    ps': "(case parameters opts of None \<Rightarrow> Inr None
           | Some ps \<Rightarrow> map_sum id Some (ids_to_names queries ps)) = Inr ps'"
    by (auto simp: save_query_metadata_def py_item_def split: sum.splits)
  define opts' where "opts' = opts\<lparr>parameters := ps'\<rparr>"
  define query1 where "query1 = query(''options'' \<mapsto> VOptions opts')"
  have h: "list_all holds_name (query_parameters opts')"
  proof (cases "parameters opts")
    case None
    with ps' show ?thesis by (simp add: opts'_def query_parameters_def)
  next
    case (Some ps)
    with ps' obtain qs where "ids_to_names queries ps = Inr qs" "ps' = Some qs"
      by (cases "ids_to_names queries ps") auto
    then show ?thesis
      using ids_to_names_holds [of queries ps qs] by (simp add: opts'_def query_parameters_def)
  qed
  have q1: "query1 ''options'' = Some (VOptions opts')" by (simp add: query1_def)
  have v: "query1 ''visualizations'' = query ''visualizations''" by (simp add: query1_def)
  obtain m1 a1 where s: "store_query_fields QUERY_META_FIELDS query1 (metadata, []) = (m1, a1)"
    by (cases "store_query_fields QUERY_META_FIELDS query1 (metadata, [])") auto
  then have m1: "m1 ''options'' = Some (VOptions opts')"
    using stored_options [of query1 opts' metadata] q1 by simp
  from assms o ps' s have "md ''options'' = m1 ''options''"
    unfolding save_query_metadata_def py_item_def
    by (auto simp: Let_def query1_def [symmetric] opts'_def [symmetric]
        split: option.splits fvalue.splits)
  with m1 h show ?thesis by (simp add: persisted_by_name_def)
qed


lemma resolved_from_refl: "resolved_from st st"
  by (simp add: resolved_from_def)

lemma resolved_from_trans:
  assumes "resolved_from st1 st2" "resolved_from st2 st3"
  shows "resolved_from st1 st3"
proof -
  have len: "length (params_of st2 n) = length (params_of st1 n)" for n
    using assms(1) by (metis resolved_from_def length_map)
  show ?thesis
    using assms len unfolding resolved_from_def by auto
qed

lemma map_of_update_entry:
  "map_of (AList.update k v al) = (map_of al)(k \<mapsto> v)"
  by (rule update_conv')

lemma param_at_params_of:
  "param_at st n i = (if i < length (params_of st n) then Some (params_of st n ! i) else None)"
  by (simp add: param_at_def params_of_def entry_def split: option.splits)

lemma params_of_set_query_id:
  "params_of (set_query_id n i qid st) m =
     (if m = n then (params_of st n)[i := (params_of st n ! i)\<lparr>queryId := Some qid,
                                                               queryName := None\<rparr>]
      else params_of st m)"
  by (simp add: set_query_id_def params_of_def entry_def map_of_update_entry
      split: option.splits)

lemma requests_set_query_id [simp]: "requests (set_query_id n i qid st) = requests st"
  by (simp add: set_query_id_def split: option.splits)

lemma map_list_update_same: "map f (xs[i := g (xs ! i)]) = map f xs"
  if "f (g (xs ! i)) = f (xs ! i)"
  using that by (cases "i < length xs") (auto simp: list_eq_iff_nth_eq nth_list_update)

lemma resolved_from_set_query_id: "resolved_from st (set_query_id n i qid st)"
proof -
  have "holds_id ((params_of st n)[i := (params_of st n ! i)\<lparr>queryId := Some qid,
                                                            queryName := None\<rparr>] ! j)"
    if "j < length (params_of st n)" "holds_id (params_of st n ! j)" for j
    using that by (cases "i = j") (simp_all add: holds_id_def)
  moreover have "map p_type ((params_of st n)[i := (params_of st n ! i)\<lparr>queryId := Some qid,
                                                            queryName := None\<rparr>])
        = map p_type (params_of st n)"
    by (rule map_list_update_same) simp
  ultimately show ?thesis
    unfolding resolved_from_def by (simp add: params_of_set_query_id)
qed

lemma holds_id_set_query_id:
  "i < length (params_of st n) \<Longrightarrow> holds_id (params_of (set_query_id n i qid st) n ! i)"
  by (simp add: params_of_set_query_id holds_id_def)

lemma upload_visualization_sent:
  assumes "upload_visualization srv eds qid evs v (reqs, lg) = (v', reqs', lg')"
    and "list_all sent_by_id reqs"
  shows "list_all sent_by_id reqs'"
  using assms
  by (auto simp: upload_visualization_def Let_def sent_by_id_def
      split: option.splits prod.splits)

lemma upload_visualizations_sent:
  assumes "upload_visualizations srv eds qid evs vs (reqs, lg) = (vs', reqs', lg')"
    and "list_all sent_by_id reqs"
  shows "list_all sent_by_id reqs'"
  using assms
proof (induction vs arbitrary: reqs lg vs' reqs' lg')
  case Nil
  then show ?case by simp
next
  case (Cons v vs)
  obtain v1 reqs1 lg1 where u: "upload_visualization srv eds qid evs v (reqs, lg) = (v1, reqs1, lg1)"
    by (cases "upload_visualization srv eds qid evs v (reqs, lg)") auto
  obtain vs2 reqs2 lg2 where
    r: "upload_visualizations srv eds qid evs vs (reqs1, lg1) = (vs2, reqs2, lg2)"
    by (cases "upload_visualizations srv eds qid evs vs (reqs1, lg1)") auto
  from Cons.prems(1) u r have "reqs' = reqs2" by simp
  with Cons.IH [OF r upload_visualization_sent [OF u Cons.prems(2)]] show ?case by simp
qed

lemma send_query_resolved:
  assumes "entry st n = Some qd"
    and "list_all holds_id (query_parameters (q_options qd))"
    and "send_query srv eds n qd st = (qid, st')"
  shows "resolved_from st st'"
proof -
  define reqs1 where "reqs1 = (if existing_queries st n = None
                   then requests st @ [CreateQuery n qd] else requests st)"
  define rq where "rq = (case existing_queries st n of
                  None \<Rightarrow> srv_create_query srv reqs1 qd | Some q \<Rightarrow> q)"
  define reqs2 where "reqs2 = reqs1 @ [UpdateQuery n (rq_id rq) qd]"
  obtain vs reqs3 lg where
    u: "upload_visualizations srv eds (rq_id rq) (map_of (dict_of_list (rq_visualizations rq)))
          (q_visualizations qd) (reqs2, logged st) = (vs, reqs3, lg)"
    by (cases "upload_visualizations srv eds (rq_id rq)
          (map_of (dict_of_list (rq_visualizations rq))) (q_visualizations qd)
          (reqs2, logged st)") auto
  from assms(3) u have st': "st' = st\<lparr>saved_queries :=
                     AList.update n
                       (qd\<lparr>q_uploaded_id := Some (rq_id rq), q_visualizations := vs\<rparr>)
                       (saved_queries st),
                   existing_queries := (existing_queries st)(n \<mapsto> rq),
                   requests := reqs3,
                   logged := lg\<rparr>"
    by (auto simp: send_query_def Let_def reqs1_def [symmetric] rq_def [symmetric]
        reqs2_def [symmetric])
  have p: "params_of st' m = params_of st m" for m
    using assms(1) by (simp add: st' params_of_def entry_def map_of_update_entry)
  have "list_all sent_by_id (requests st) \<Longrightarrow> list_all sent_by_id reqs2"
    using assms(2) by (simp add: reqs2_def reqs1_def sent_by_id_def)
  then have "list_all sent_by_id (requests st) \<Longrightarrow> list_all sent_by_id (requests st')"
    using upload_visualizations_sent [OF u] by (simp add: st')
  with p show ?thesis by (simp add: resolved_from_def)
qed

lemma resolve_parameters_resolved:
  assumes IH: "\<And>n st qid st'. upload_query srv eds depth n st = Inr (qid, st')
                 \<Longrightarrow> resolved_from st st'"
  shows "resolve_parameters srv eds depth n is st = Inr st'
         \<Longrightarrow> \<forall>j\<in>set is. j < length (params_of st n)
         \<Longrightarrow> resolved_from st st'
             \<and> (\<forall>j\<in>set is. p_type (params_of st n ! j) = ''query''
                    \<longrightarrow> holds_id (params_of st' n ! j))"
proof (induction "is" arbitrary: st)
  case Nil
  then show ?case by (simp add: resolved_from_refl)
next
  case (Cons i "is")
  then have i: "i < length (params_of st n)" and rest: "\<forall>j\<in>set is. j < length (params_of st n)"
    by simp_all
  let ?p = "params_of st n ! i"
  have pa: "param_at st n i = Some ?p" using i by (simp add: param_at_params_of)
  show ?case
  proof (cases "p_type ?p = ''query''")
    case False
    with Cons.prems(1) pa have "resolve_parameters srv eds depth n is st = Inr st'" by simp
    from Cons.IH [OF this rest] False show ?thesis by simp
  next
    case True
    with Cons.prems(1) pa obtain dep qid st1 where
      d: "queryName ?p = Some dep" "upload_query srv eds depth dep st = Inr (qid, st1)"
      and r: "resolve_parameters srv eds depth n is (set_query_id n i qid st1) = Inr st'"
      by (auto split: option.splits sum.splits)
    let ?st2 = "set_query_id n i qid st1"
    have r1: "resolved_from st st1" by (rule IH [OF d(2)])
    have r2: "resolved_from st1 ?st2" by (rule resolved_from_set_query_id)
    have r12: "resolved_from st ?st2" by (rule resolved_from_trans [OF r1 r2])
    have ty: "map p_type (params_of ?st2 m) = map p_type (params_of st m)" for m
      using r12 by (simp add: resolved_from_def)
    have len: "length (params_of ?st2 m) = length (params_of st m)" for m
      using ty [of m] by (metis length_map)
    have len1: "length (params_of st1 m) = length (params_of st m)" for m
      using r1 by (metis resolved_from_def length_map)
    have rest2: "\<forall>j\<in>set is. j < length (params_of ?st2 n)" using rest len by simp
    from Cons.IH [OF r rest2] have
      r3: "resolved_from ?st2 st'"
      and h: "\<forall>j\<in>set is. p_type (params_of ?st2 n ! j) = ''query''
                \<longrightarrow> holds_id (params_of st' n ! j)"
      by simp_all
    have tyj: "p_type (params_of ?st2 n ! j) = p_type (params_of st n ! j)"
      if "j < length (params_of st n)" for j
      using ty [of n] that len [of n] by (metis nth_map)
    have "holds_id (params_of ?st2 n ! i)"
      using i len1 by (simp add: holds_id_set_query_id)
    then have hi: "holds_id (params_of st' n ! i)"
      using r3 i len by (simp add: resolved_from_def)
    from h tyj rest hi resolved_from_trans [OF r12 r3] show ?thesis by simp
  qed
qed

lemma upload_query_resolved:
  "upload_query srv eds depth n st = Inr (qid, st') \<Longrightarrow> resolved_from st st'"
proof (induction depth arbitrary: n st qid st')
  case 0
  then show ?case by simp
next
  case (Suc depth)
  from Suc.prems obtain qd where qd: "map_of (saved_queries st) n = Some qd"
    by (auto split: option.splits)
  show ?case
  proof (cases "q_uploaded_id qd")
    case (Some i)
    with Suc.prems qd show ?thesis by (simp add: resolved_from_refl)
  next
    case None
    from Suc.prems qd None obtain st1 qd1 where
      l: "(case parameters (q_options qd) of None \<Rightarrow> Inr st
           | Some ps \<Rightarrow> resolve_parameters srv eds depth n [0..<length ps] st) = Inr st1"
      and e1: "map_of (saved_queries st1) n = Some qd1"
      and s: "send_query srv eds n qd1 st1 = (qid, st')"
      by (auto split: option.splits sum.splits)
    have a: "resolved_from st st1
             \<and> (\<forall>j<length (params_of st n). p_type (params_of st n ! j) = ''query''
                    \<longrightarrow> holds_id (params_of st1 n ! j))"
    proof (cases "parameters (q_options qd)")
      case None
      with l qd show ?thesis by (simp add: resolved_from_refl params_of_def entry_def)
    next
      case (Some ps)
      with qd have p: "params_of st n = ps" by (simp add: params_of_def entry_def)
      from l Some have "resolve_parameters srv eds depth n [0..<length ps] st = Inr st1" by simp
      from resolve_parameters_resolved [OF Suc.IH this] p show ?thesis by simp
    qed
    then have ty: "map p_type (params_of st1 n) = map p_type (params_of st n)"
      by (simp add: resolved_from_def)
    then have len: "length (params_of st1 n) = length (params_of st n)"
      by (metis length_map)
    have "\<forall>j<length (params_of st1 n). p_type (params_of st1 n ! j) = ''query''
            \<longrightarrow> holds_id (params_of st1 n ! j)"
      using a ty len by (metis nth_map)
    then have "list_all holds_id (filter (\<lambda>p. p_type p = ''query'') (params_of st1 n))"
      by (auto simp: list_all_iff in_set_conv_nth)
    moreover have "query_parameters (q_options qd1)
                   = filter (\<lambda>p. p_type p = ''query'') (params_of st1 n)"
      using e1 by (simp add: query_parameters_def params_of_def entry_def split: option.splits)
    ultimately have "list_all holds_id (query_parameters (q_options qd1))" by simp
    from send_query_resolved [OF _ this s] e1 have "resolved_from st1 st'"
      by (simp add: entry_def)
    with a show ?thesis by (blast intro: resolved_from_trans)
  qed
qed

text \<open>
  C7. The metadata document that \<open>save_queries\<close> writes for a query has, under
  \<open>options\<close>, parameters whose references to queries hold a \<open>queryName\<close> and no
  \<open>queryId\<close>. A call of \<open>upload_query\<close> that returns adds only create and update
  requests whose parameters of type \<open>query\<close> hold a \<open>queryId\<close> and no \<open>queryName\<close>.
\<close>

theorem query_references_never_hold_both:
  "(save_query_metadata queries metadata query = Inr (md, assigned) \<longrightarrow> persisted_by_name md)
   \<and> (upload_query srv eds depth query_name st = Inr (query_id, st')
      \<longrightarrow> list_all sent_by_id (requests st) \<longrightarrow> list_all sent_by_id (requests st'))"
  using save_query_metadata_by_name [of queries metadata query md assigned]
    upload_query_resolved [of srv eds depth query_name st query_id st']
  by (simp add: resolved_from_def)


theorem query_references_never_hold_both_witness:
  "persisted_by_name
     (fst (projr (save_query_metadata [3 \<mapsto> ex_fetched_lookup, 4 \<mapsto> ex_fetched_report]
                    Map.empty ex_fetched_report)))
   \<and> list_all sent_by_id
       (requests (snd (projr (upload_query ex_server ex_remote_dashboards 10 ''Report''
                                ex_initial))))"
proof -
  have a: "save_query_metadata [3 \<mapsto> ex_fetched_lookup, 4 \<mapsto> ex_fetched_report]
             Map.empty ex_fetched_report
           = Inr (projr (save_query_metadata [3 \<mapsto> ex_fetched_lookup, 4 \<mapsto> ex_fetched_report]
                    Map.empty ex_fetched_report))"
    by (simp add: save_query_metadata_def ex_fetched_report_def ex_fetched_lookup_def
        py_item_def split: prod.splits)
  have b: "upload_query ex_server ex_remote_dashboards 10 ''Report'' ex_initial
           = Inr (projr (upload_query ex_server ex_remote_dashboards 10 ''Report'' ex_initial))"
    by (simp add: ex_initial_def ex_defs eval_defs)
  have c: "list_all sent_by_id (requests ex_initial)"
    by (simp add: ex_initial_def)
  from query_references_never_hold_both
    [of "[3 \<mapsto> ex_fetched_lookup, 4 \<mapsto> ex_fetched_report]" Map.empty ex_fetched_report
      "fst (projr (save_query_metadata [3 \<mapsto> ex_fetched_lookup, 4 \<mapsto> ex_fetched_report]
                    Map.empty ex_fetched_report))"
      "snd (projr (save_query_metadata [3 \<mapsto> ex_fetched_lookup, 4 \<mapsto> ex_fetched_report]
                    Map.empty ex_fetched_report))"
      ex_server ex_remote_dashboards 10 "''Report''" ex_initial
      "fst (projr (upload_query ex_server ex_remote_dashboards 10 ''Report'' ex_initial))"
      "snd (projr (upload_query ex_server ex_remote_dashboards 10 ''Report'' ex_initial))"]
    a b c
  show ?thesis by simp
qed

section \<open>Properties of the order of uploads\<close>

lemma params_of_param_list:
  "params_of st n = (case entry st n of None \<Rightarrow> [] | Some q \<Rightarrow> param_list (q_options q))"
  by (simp add: params_of_def param_list_def split: option.splits)

lemma quiet_append [simp]: "quiet n (xs @ ys) = (quiet n xs \<and> quiet n ys)"
  by (simp add: quiet_def)

lemma quiet_Nil [simp]: "quiet n []"
  by (simp add: quiet_def)

lemma quiet_Cons [simp]: "quiet n (x # xs) = (\<not> query_request n x \<and> quiet n xs)"
  by (simp add: quiet_def)

lemma quiet_filter: "quiet n xs \<Longrightarrow> filter (query_request n) xs = []"
  by (induction xs) auto

lemma quiet_set: "quiet n xs = (\<forall>e\<in>set xs. \<not> query_request n e)"
  by (simp add: quiet_def list_all_iff)

lemma query_request_simps [simp]:
  "query_request n (CreateQuery m d) = (m = n)"
  "query_request n (UpdateQuery m i d) = (m = n)"
  "query_request n (UpdateVisualization i v) = False"
  "query_request n (CreateVisualization v) = False"
  by (simp_all add: query_request_def is_create_def is_update_def)

lemma uploaded_once_append:
  "uploaded_once ex n i tr \<Longrightarrow> quiet n new \<Longrightarrow> uploaded_once ex n i (tr @ new)"
  unfolding uploaded_once_def
  by (elim exE conjE) (rule_tac x = pre in exI, rule_tac x = d in exI,
      rule_tac x = "post @ new" in exI, simp)

lemma uploaded_once_not_quiet: "uploaded_once ex n i tr \<Longrightarrow> \<not> quiet n tr"
  by (auto simp: uploaded_once_def)

lemma dep_before_append:
  assumes "dep_before sq n tr" "quiet n new" "\<forall>k dep. refers sq n k dep \<longrightarrow> quiet dep new"
  shows "dep_before sq n (tr @ new)"
  unfolding dep_before_def
proof (intro allI impI)
  fix k dep
  assume r: "refers sq n k dep"
  with assms(1) obtain pre i2 d2 post where
    s: "tr = pre @ UpdateQuery dep i2 d2 # post" "quiet n pre" "quiet dep post"
      "\<exists>iq dq. UpdateQuery n iq dq \<in> set post"
      "\<forall>iq dq. UpdateQuery n iq dq \<in> set post \<longrightarrow>
         (\<exists>p. sent_param dq k = Some p \<and> queryId p = Some i2 \<and> queryName p = None)"
    unfolding dep_before_def by blast
  have nn: "UpdateQuery n iq dq \<notin> set new" for iq dq
    using assms(2) by (auto simp: quiet_set)
  show "\<exists>pre i2 d2 post. tr @ new = pre @ UpdateQuery dep i2 d2 # post
           \<and> quiet n pre \<and> quiet dep post
           \<and> (\<exists>iq dq. UpdateQuery n iq dq \<in> set post)
           \<and> (\<forall>iq dq. UpdateQuery n iq dq \<in> set post \<longrightarrow>
                 (\<exists>p. sent_param dq k = Some p \<and> queryId p = Some i2 \<and> queryName p = None))"
    apply (rule exI [of _ pre], rule exI [of _ i2], rule exI [of _ d2],
        rule exI [of _ "post @ new"])
    using s r assms(3) nn by auto
qed

lemma keys_update:
  "k \<in> set (map fst al) \<Longrightarrow> map fst (AList.update k v al) = map fst al"
  by (simp add: update_keys)

lemma entry_keys: "(entry st n \<noteq> None) = (n \<in> set (map fst (saved_queries st)))"
  by (simp add: entry_def map_of_eq_None_iff)

lemma entry_set_query_id:
  "entry (set_query_id n i qid st) m =
     (if m = n
      then (case entry st n of
              None \<Rightarrow> None
            | Some qd \<Rightarrow>
                (case parameters (q_options qd) of
                   None \<Rightarrow> Some qd
                 | Some ps \<Rightarrow>
                     Some (qd\<lparr>q_options := (q_options qd)\<lparr>parameters :=
                            Some (ps[i := (ps ! i)\<lparr>queryId := Some qid, queryName := None\<rparr>])\<rparr>\<rparr>)))
      else entry st m)"
  by (simp add: set_query_id_def entry_def map_of_update_entry split: option.splits)

lemma uid_set_query_id [simp]: "uid (set_query_id n i qid st) m = uid st m"
  by (simp add: uid_def entry_set_query_id split: option.splits)

lemma existing_set_query_id [simp]:
  "existing_queries (set_query_id n i qid st) = existing_queries st"
  by (simp add: set_query_id_def split: option.splits)

lemma keys_set_query_id [simp]:
  "map fst (saved_queries (set_query_id n i qid st)) = map fst (saved_queries st)"
proof (cases "map_of (saved_queries st) n")
  case None
  then show ?thesis by (simp add: set_query_id_def)
next
  case (Some qd)
  then have "n \<in> set (map fst (saved_queries st))"
    by (metis map_of_eq_None_iff option.distinct(1) set_map)
  then show ?thesis
    by (simp add: set_query_id_def keys_update split: option.splits)
qed

lemma run_inv_set_query_id [simp]:
  "run_inv sq ex (set_query_id n i qid st) = run_inv sq ex st"
  by (simp add: run_inv_def cong: option.case_cong)

lemma upload_visualization_appends:
  assumes "upload_visualization srv eds qid evs v (reqs, lg) = (v', reqs', lg')"
  shows "\<exists>vz. reqs' = reqs @ vz \<and> (\<forall>m. quiet m vz)"
  using assms
  by (auto simp: upload_visualization_def Let_def split: option.splits prod.splits)

lemma upload_visualizations_appends:
  assumes "upload_visualizations srv eds qid evs vs (reqs, lg) = (vs', reqs', lg')"
  shows "\<exists>vz. reqs' = reqs @ vz \<and> (\<forall>m. quiet m vz)"
  using assms
proof (induction vs arbitrary: reqs lg vs' reqs' lg')
  case Nil
  then show ?case by simp
next
  case (Cons v vs)
  obtain v1 reqs1 lg1 where u: "upload_visualization srv eds qid evs v (reqs, lg) = (v1, reqs1, lg1)"
    by (cases "upload_visualization srv eds qid evs v (reqs, lg)") auto
  obtain vs2 reqs2 lg2 where
    r: "upload_visualizations srv eds qid evs vs (reqs1, lg1) = (vs2, reqs2, lg2)"
    by (cases "upload_visualizations srv eds qid evs vs (reqs1, lg1)") auto
  from Cons.prems u r have e: "reqs' = reqs2" by simp
  from upload_visualization_appends [OF u] obtain vz1 where
    1: "reqs1 = reqs @ vz1" "\<forall>m. quiet m vz1" by blast
  from Cons.IH [OF r] obtain vz2 where
    2: "reqs2 = reqs1 @ vz2" "\<forall>m. quiet m vz2" by blast
  show ?case
    by (rule exI [of _ "vz1 @ vz2"]) (use e 1 2 in simp)
qed

text \<open>What send_query does to the state.\<close>

lemma send_query_effect:
  assumes "send_query srv eds n qd st = (qid, st')"
  shows "\<exists>vz vs rq. (\<forall>m. quiet m vz)
           \<and> requests st' = requests st
                @ (if existing_queries st n = None then [CreateQuery n qd] else [])
                @ UpdateQuery n qid qd # vz
           \<and> saved_queries st' = AList.update n
                (qd\<lparr>q_uploaded_id := Some qid, q_visualizations := vs\<rparr>) (saved_queries st)
           \<and> existing_queries st' = (existing_queries st)(n \<mapsto> rq)"
proof -
  define reqs1 where "reqs1 = (if existing_queries st n = None
                   then requests st @ [CreateQuery n qd] else requests st)"
  define rq where "rq = (case existing_queries st n of
                  None \<Rightarrow> srv_create_query srv reqs1 qd | Some q \<Rightarrow> q)"
  define reqs2 where "reqs2 = reqs1 @ [UpdateQuery n (rq_id rq) qd]"
  obtain vs reqs3 lg where
    u: "upload_visualizations srv eds (rq_id rq) (map_of (dict_of_list (rq_visualizations rq)))
          (q_visualizations qd) (reqs2, logged st) = (vs, reqs3, lg)"
    by (cases "upload_visualizations srv eds (rq_id rq)
          (map_of (dict_of_list (rq_visualizations rq))) (q_visualizations qd)
          (reqs2, logged st)") auto
  from assms u have st': "qid = rq_id rq" "st' = st\<lparr>saved_queries :=
                     AList.update n
                       (qd\<lparr>q_uploaded_id := Some (rq_id rq), q_visualizations := vs\<rparr>)
                       (saved_queries st),
                   existing_queries := (existing_queries st)(n \<mapsto> rq),
                   requests := reqs3,
                   logged := lg\<rparr>"
    by (auto simp: send_query_def Let_def reqs1_def [symmetric] rq_def [symmetric]
        reqs2_def [symmetric])
  from upload_visualizations_appends [OF u] obtain vz where
    vz: "reqs3 = reqs2 @ vz" "\<forall>m. quiet m vz" by blast
  show ?thesis
    apply (rule exI [of _ vz], rule exI [of _ vs], rule exI [of _ rq])
    using vz st' by (simp add: reqs2_def reqs1_def)
qed

lemma refers_acyclic:
  assumes "acyclic_refs rank sq" "refers sq n k dep"
  shows "dep \<in> set (map fst sq) \<and> rank dep < rank n \<and> n \<in> set (map fst sq)"
proof -
  from assms(2) have k: "k < length (params0 sq n)" "p_type (params0 sq n ! k) = ''query''"
      "queryName (params0 sq n ! k) = Some dep"
    by (simp_all add: refers_def)
  from k(1) obtain q where q: "map_of sq n = Some q" "params0 sq n = param_list (q_options q)"
    by (cases "map_of sq n") (auto simp: params0_def)
  then have m: "(n, q) \<in> set sq" by (simp add: map_of_SomeD)
  have "params0 sq n ! k \<in> set (query_parameters (q_options q))"
    using k q by (auto simp: query_parameters_def param_list_def split: option.splits)
  moreover from assms(1) m have
    "list_all (\<lambda>p. case queryName p of None \<Rightarrow> False
                   | Some dep \<Rightarrow> dep \<in> set (map fst sq) \<and> rank dep < rank n)
       (query_parameters (q_options q))"
    by (auto simp: acyclic_refs_def list_all_iff)
  ultimately have "dep \<in> set (map fst sq) \<and> rank dep < rank n"
    using k(3) by (auto simp: list_all_iff)
  moreover have "n \<in> set (map fst sq)" using m by force
  ultimately show ?thesis by simp
qed

lemma acyclic_query_has_name:
  assumes "acyclic_refs rank sq" "k < length (params0 sq n)"
    "p_type (params0 sq n ! k) = ''query''"
  shows "\<exists>dep. refers sq n k dep"
proof -
  from assms(2) obtain q where q: "map_of sq n = Some q" "params0 sq n = param_list (q_options q)"
    by (cases "map_of sq n") (auto simp: params0_def)
  then have m: "(n, q) \<in> set sq" by (simp add: map_of_SomeD)
  have "params0 sq n ! k \<in> set (query_parameters (q_options q))"
    using assms(2,3) q by (auto simp: query_parameters_def param_list_def split: option.splits)
  moreover from assms(1) m have
    "list_all (\<lambda>p. case queryName p of None \<Rightarrow> False
                   | Some dep \<Rightarrow> dep \<in> set (map fst sq) \<and> rank dep < rank n)
       (query_parameters (q_options q))"
    by (auto simp: acyclic_refs_def list_all_iff)
  ultimately show ?thesis
    using assms(2,3) by (auto simp: list_all_iff refers_def split: option.splits)
qed

lemma acyclic_not_uploaded:
  assumes "acyclic_refs rank sq" "map_of sq n = Some q"
  shows "q_uploaded_id q = None"
  using assms by (auto simp: acyclic_refs_def list_all_iff dest: map_of_SomeD)

lemma run_inv_None:
  "run_inv sq ex st \<Longrightarrow> n \<in> set (map fst sq) \<Longrightarrow> uid st n = None
   \<Longrightarrow> quiet n (requests st) \<and> existing_queries st n = ex n"
  by (auto simp: run_inv_def)

lemma run_inv_Some:
  "run_inv sq ex st \<Longrightarrow> n \<in> set (map fst sq) \<Longrightarrow> uid st n = Some i
   \<Longrightarrow> uploaded_once ex n i (requests st) \<and> dep_before sq n (requests st)"
  by (auto simp: run_inv_def)

lemma run_inv_keys: "run_inv sq ex st \<Longrightarrow> map fst (saved_queries st) = map fst sq"
  by (simp add: run_inv_def)

lemma dep_before_mentions:
  assumes "dep_before sq n tr" "refers sq n k dep"
  shows "\<not> quiet dep tr"
proof -
  from assms obtain pre i2 d2 post where "tr = pre @ UpdateQuery dep i2 d2 # post"
    unfolding dep_before_def by blast
  then show ?thesis by simp
qed

lemma send_query_run:
  assumes ac: "acyclic_refs rank sq"
    and inv: "run_inv sq ex st"
    and n: "n \<in> set (map fst sq)"
    and un: "uid st n = None"
    and e: "entry st n = Some qd"
    and ps: "\<forall>k dep. refers sq n k dep \<longrightarrow>
               (\<exists>p. sent_param qd k = Some p \<and> queryId p = uid st dep \<and> uid st dep \<noteq> None
                    \<and> queryName p = None)"
    and s: "send_query srv eds n qd st = (qid, st')"
  shows "run_inv sq ex st' \<and> uid st' n = Some qid \<and> (\<forall>m. m \<noteq> n \<longrightarrow> entry st' m = entry st m)"
proof -
  from send_query_effect [OF s] obtain vz vs rq where
    vz: "\<forall>m. quiet m vz"
    and rq': "requests st' = requests st
                @ (if existing_queries st n = None then [CreateQuery n qd] else [])
                @ UpdateQuery n qid qd # vz"
    and sv: "saved_queries st' = AList.update n
                (qd\<lparr>q_uploaded_id := Some qid, q_visualizations := vs\<rparr>) (saved_queries st)"
    and ex': "existing_queries st' = (existing_queries st)(n \<mapsto> rq)"
    by blast
  define cr where "cr = (if existing_queries st n = None then [CreateQuery n qd] else [])"
  define new where "new = cr @ UpdateQuery n qid qd # vz"
  have rq: "requests st' = requests st @ new" using rq' by (simp add: new_def cr_def)
  have keys: "map fst (saved_queries st) = map fst sq" by (rule run_inv_keys [OF inv])
  have en: "entry st' m = (if m = n then Some (qd\<lparr>q_uploaded_id := Some qid,
                                               q_visualizations := vs\<rparr>) else entry st m)" for m
    by (simp add: entry_def sv map_of_update_entry)
  have un': "uid st' m = (if m = n then Some qid else uid st m)" for m
    by (simp add: uid_def en)
  have keys': "map fst (saved_queries st') = map fst sq"
    using n keys by (simp add: sv keys_update)
  from run_inv_None [OF inv n un] have qn: "quiet n (requests st)"
    and exn: "existing_queries st n = ex n" by simp_all
  have new_quiet: "quiet m new" if "m \<noteq> n" for m
    using that vz by (simp add: new_def cr_def)
  have "case uid st' m of
          None \<Rightarrow> quiet m (requests st') \<and> existing_queries st' m = ex m
        | Some i \<Rightarrow> uploaded_once ex m i (requests st') \<and> dep_before sq m (requests st')"
    if m: "m \<in> set (map fst sq)" for m
  proof (cases "m = n")
    case True
    have u1: "uploaded_once ex n qid (requests st')"
      unfolding uploaded_once_def
      apply (rule exI [of _ "requests st @ cr"], rule exI [of _ qd], rule exI [of _ vz])
      using vz qn exn by (simp add: rq new_def cr_def quiet_filter)
    have d1: "dep_before sq n (requests st')"
      unfolding dep_before_def
    proof (intro allI impI)
      fix k dep
      assume r: "refers sq n k dep"
      with ps obtain p i2 where p: "sent_param qd k = Some p" "queryId p = Some i2"
          "uid st dep = Some i2" "queryName p = None"
        by (metis not_Some_eq)
      from refers_acyclic [OF ac r] have dk: "dep \<in> set (map fst sq)" by simp
      from p(3) un have dn: "dep \<noteq> n" by auto
      from run_inv_Some [OF inv dk p(3)] obtain pre d2 post where
        sp: "requests st = pre @ UpdateQuery dep i2 d2 # post" "quiet dep post"
        by (auto simp: uploaded_once_def)
      from qn sp(1) have qp: "quiet n pre" "quiet n post" by simp_all
      have nv: "UpdateQuery n iq dq \<notin> set vz" "UpdateQuery n iq dq \<notin> set post"
        "UpdateQuery n iq dq \<notin> set cr" for iq dq
      proof -
        have "quiet n vz" using vz by blast
        then show "UpdateQuery n iq dq \<notin> set vz"
          unfolding quiet_set using query_request_simps(2) by blast
        show "UpdateQuery n iq dq \<notin> set post"
          using qp(2) unfolding quiet_set using query_request_simps(2) by blast
        show "UpdateQuery n iq dq \<notin> set cr"
          by (simp add: cr_def)
      qed
      have mem: "UpdateQuery n iq dq \<in> set (post @ new) \<longleftrightarrow> iq = qid \<and> dq = qd" for iq dq
        using nv by (auto simp: new_def)
      show "\<exists>pre i2 d2 post. requests st' = pre @ UpdateQuery dep i2 d2 # post
           \<and> quiet n pre \<and> quiet dep post
           \<and> (\<exists>iq dq. UpdateQuery n iq dq \<in> set post)
           \<and> (\<forall>iq dq. UpdateQuery n iq dq \<in> set post \<longrightarrow>
                 (\<exists>p. sent_param dq k = Some p \<and> queryId p = Some i2 \<and> queryName p = None))"
        apply (rule exI [of _ pre], rule exI [of _ i2], rule exI [of _ d2],
            rule exI [of _ "post @ new"])
        unfolding mem
        using sp qp new_quiet [OF dn] p
        by (simp add: rq)
    qed
    from True u1 d1 show ?thesis by (simp add: un')
  next
    case False
    show ?thesis
    proof (cases "uid st m")
      case None
      from run_inv_None [OF inv m None] False new_quiet [OF False] None show ?thesis
        by (simp add: un' rq ex')
    next
      case (Some i)
      from run_inv_Some [OF inv m Some] have
        u: "uploaded_once ex m i (requests st)" and d: "dep_before sq m (requests st)"
        by simp_all
      have "quiet dep new" if "refers sq m k dep" for k dep
      proof -
        from dep_before_mentions [OF d that] qn have "dep \<noteq> n" by auto
        then show ?thesis by (rule new_quiet)
      qed
      with dep_before_append [OF d new_quiet [OF False]] have "dep_before sq m (requests st')"
        by (simp add: rq)
      with uploaded_once_append [OF u new_quiet [OF False]] False Some show ?thesis
        by (simp add: un' rq)
    qed
  qed
  with keys' have "run_inv sq ex st'" by (simp add: run_inv_def)
  then show ?thesis by (simp add: un' en)
qed

lemma frame_refl: "frame sq X S st st"
  by (simp add: frame_def)

lemma frame_trans:
  assumes "frame sq X S a b" "frame sq X S b c"
  shows "frame sq X S a c"
  unfolding frame_def
proof
  fix m
  from assms(1) have 1: "m \<in> X \<or> entry b m = entry a m
      \<or> (m \<in> S \<and> m \<in> set (map fst sq) \<and> uid a m = None \<and> uid b m \<noteq> None)"
    by (simp add: frame_def)
  from assms(2) have 2: "m \<in> X \<or> entry c m = entry b m
      \<or> (m \<in> S \<and> m \<in> set (map fst sq) \<and> uid b m = None \<and> uid c m \<noteq> None)"
    by (simp add: frame_def)
  have e: "entry s m = entry t m \<Longrightarrow> uid s m = uid t m" for s t :: "'a pstate"
    by (simp add: uid_def)
  from 1 2 e [of b a] e [of c b]
  show "m \<in> X \<or> entry c m = entry a m
      \<or> (m \<in> S \<and> m \<in> set (map fst sq) \<and> uid a m = None \<and> uid c m \<noteq> None)"
    by metis
qed

lemma frame_mono: "frame sq X S st st' \<Longrightarrow> X \<subseteq> X' \<Longrightarrow> S \<subseteq> S' \<Longrightarrow> frame sq X' S' st st'"
  unfolding frame_def by blast

lemma frame_set_query_id: "frame sq {n} S st (set_query_id n i qid st)"
  by (simp add: frame_def entry_set_query_id)

lemma frame_fresh:
  assumes "fresh sq T st" "frame sq X S st st'" "T \<inter> X = {}"
  shows "fresh sq T st'"
  unfolding fresh_def
proof (intro ballI impI)
  fix m
  assume m: "m \<in> T" "uid st' m = None"
  with assms(3) have "m \<notin> X" by blast
  with assms(2) m(2) have e: "entry st' m = entry st m" by (auto simp: frame_def)
  then have "uid st m = None" using m(2) by (simp add: uid_def)
  with assms(1) m(1) e show "entry st' m = map_of sq m" by (simp add: fresh_def)
qed

lemma frame_uid:
  assumes "frame sq X S st st'" "m \<notin> X" "uid st m = Some i"
  shows "uid st' m = Some i"
proof -
  from assms have "entry st' m = entry st m" by (auto simp: frame_def)
  with assms(3) show ?thesis by (simp add: uid_def)
qed

lemma frame_entry:
  assumes "frame sq X S st st'" "m \<notin> X" "m \<notin> S"
  shows "entry st' m = entry st m"
  using assms by (auto simp: frame_def)

lemma resolved_upto_length:
  "resolved_upto sq n k st \<Longrightarrow> length (params_of st n) = length (params0 sq n)"
  unfolding resolved_upto_def by (metis length_map)

lemma params_of_entry_eq: "entry st' n = entry st n \<Longrightarrow> params_of st' n = params_of st n"
  by (simp add: params_of_def)

lemma uid_entry_eq: "entry st' n = entry st n \<Longrightarrow> uid st' n = uid st n"
  by (simp add: uid_def)

lemma resolved_upto_frame:
  assumes r: "resolved_upto sq n k st" and f: "frame sq {} S st st'" and n: "n \<notin> S"
  shows "resolved_upto sq n k st'"
proof -
  have e: "entry st' n = entry st n" using frame_entry [OF f _ n] by simp
  have u: "uid st dep \<noteq> None \<Longrightarrow> uid st' dep = uid st dep" for dep
    using frame_uid [OF f, of dep] by auto
  from r show ?thesis
    unfolding resolved_upto_def params_of_entry_eq [OF e] uid_entry_eq [OF e] e
    using u by auto
qed

lemma resolved_upto_skip:
  assumes "resolved_upto sq n k st" "p_type (params0 sq n ! k) \<noteq> ''query''"
  shows "resolved_upto sq n (Suc k) st"
  using assms unfolding resolved_upto_def refers_def
  by (auto simp: less_Suc_eq)

lemma resolved_upto_set:
  assumes r: "resolved_upto sq n k st" and k: "refers sq n k dep"
    and u: "uid st dep = Some qid"
  shows "resolved_upto sq n (Suc k) (set_query_id n k qid st)"
proof -
  let ?st = "set_query_id n k qid st"
  let ?ps = "params_of st n"
  have len: "length ?ps = length (params0 sq n)" by (rule resolved_upto_length [OF r])
  have kl: "k < length ?ps" using k len by (simp add: refers_def)
  have p: "params_of ?st n = ?ps[k := (?ps ! k)\<lparr>queryId := Some qid, queryName := None\<rparr>]"
    by (simp add: params_of_set_query_id)
  have ty: "map p_type (params_of ?st n) = map p_type ?ps"
    unfolding p by (rule map_list_update_same) simp
  have en: "entry ?st n \<noteq> None"
    using r by (auto simp: resolved_upto_def entry_set_query_id split: option.splits)
  have dep_eq: "dep' = dep" if "refers sq n k dep'" for dep'
    using that k by (simp add: refers_def)
  have c1: "uid ?st n = None" using r by (simp add: resolved_upto_def)
  have c3: "map p_type (params_of ?st n) = map p_type (params0 sq n)"
    using ty r by (simp add: resolved_upto_def)
  have c4: "queryId (params_of ?st n ! j) = uid ?st dep' \<and> uid ?st dep' \<noteq> None
          \<and> queryName (params_of ?st n ! j) = None"
    if j: "j < Suc k" "refers sq n j dep'" for j dep'
  proof (cases "j = k")
    case True
    with j dep_eq have "dep' = dep" by simp
    with True kl u show ?thesis by (simp add: p)
  next
    case False
    with j have "j < k" by simp
    with r j(2) False show ?thesis by (simp add: resolved_upto_def p)
  qed
  have c5: "params_of ?st n ! j = params0 sq n ! j"
    if "Suc k \<le> j" "j < length (params0 sq n)" for j
    using that r by (simp add: resolved_upto_def p)
  from c1 en c3 c4 c5 show ?thesis
    unfolding resolved_upto_def by blast
qed

lemma fresh_set_query_id:
  "fresh sq T st \<Longrightarrow> n \<notin> T \<Longrightarrow> fresh sq T (set_query_id n k qid st)"
  unfolding fresh_def by (auto simp: entry_set_query_id)

lemma fresh_mono: "fresh sq T st \<Longrightarrow> T' \<subseteq> T \<Longrightarrow> fresh sq T' st"
  unfolding fresh_def by blast

lemma resolve_parameters_run:
  assumes ac: "acyclic_refs rank sq"
    and IH: "\<And>m st. m \<in> set (map fst sq) \<Longrightarrow> rank m < depth \<Longrightarrow> run_inv sq ex st
              \<Longrightarrow> fresh sq {x. rank x \<le> rank m} st
              \<Longrightarrow> \<exists>qid st'. upload_query srv eds depth m st = Inr (qid, st')
                    \<and> run_inv sq ex st' \<and> uid st' m = Some qid
                    \<and> frame sq {} {x. rank x \<le> rank m} st st'"
    and n: "n \<in> set (map fst sq)" and rk: "rank n \<le> depth"
  shows "k \<le> length (params0 sq n) \<Longrightarrow> run_inv sq ex st
         \<Longrightarrow> fresh sq {x. rank x < rank n} st \<Longrightarrow> resolved_upto sq n k st
         \<Longrightarrow> \<exists>st'. resolve_parameters srv eds depth n [k..<length (params0 sq n)] st = Inr st'
                \<and> run_inv sq ex st' \<and> resolved_upto sq n (length (params0 sq n)) st'
                \<and> fresh sq {x. rank x < rank n} st'
                \<and> frame sq {n} {x. rank x < rank n} st st'"
proof (induction "length (params0 sq n) - k" arbitrary: k st)
  case 0
  then have "k = length (params0 sq n)" by simp
  with 0 show ?case by (simp add: frame_refl)
next
  case (Suc d)
  let ?len = "length (params0 sq n)"
  let ?S = "{x. rank x < rank n}"
  from Suc(2) have kl: "k < ?len" by simp
  then have upt: "[k..<?len] = k # [Suc k..<?len]" by (rule upt_conv_Cons)
  from Suc(2) have d: "d = ?len - Suc k" by simp
  have sk: "Suc k \<le> ?len" using kl by simp
  note r = \<open>resolved_upto sq n k st\<close>
  have len: "length (params_of st n) = ?len" by (rule resolved_upto_length [OF r])
  have pk: "params_of st n ! k = params0 sq n ! k"
    using r kl by (simp add: resolved_upto_def)
  have pa: "param_at st n k = Some (params0 sq n ! k)"
    using kl len pk by (simp add: param_at_params_of)
  show ?case
  proof (cases "p_type (params0 sq n ! k) = ''query''")
    case False
    have e: "resolve_parameters srv eds depth n [k..<?len] st
             = resolve_parameters srv eds depth n [Suc k..<?len] st"
      unfolding upt using pa False by simp
    from Suc(1) [OF d sk \<open>run_inv sq ex st\<close> \<open>fresh sq ?S st\<close> resolved_upto_skip [OF r False]]
    show ?thesis unfolding e .
  next
    case True
    from acyclic_query_has_name [OF ac kl True] obtain dep where dep: "refers sq n k dep" ..
    then have qn: "queryName (params0 sq n ! k) = Some dep" by (simp add: refers_def)
    from refers_acyclic [OF ac dep] have dk: "dep \<in> set (map fst sq)" and dr: "rank dep < rank n"
      by simp_all
    have "fresh sq {x. rank x \<le> rank dep} st"
      by (rule fresh_mono [OF \<open>fresh sq ?S st\<close>]) (use dr in auto)
    from IH [OF dk _ \<open>run_inv sq ex st\<close> this] dr rk obtain qid st1 where
      u: "upload_query srv eds depth dep st = Inr (qid, st1)"
      and inv1: "run_inv sq ex st1" and uid1: "uid st1 dep = Some qid"
      and f1: "frame sq {} {x. rank x \<le> rank dep} st st1"
      by force
    let ?st2 = "set_query_id n k qid st1"
    have e: "resolve_parameters srv eds depth n [k..<?len] st
             = resolve_parameters srv eds depth n [Suc k..<?len] ?st2"
      unfolding upt using pa True qn u by simp
    have r1: "resolved_upto sq n k st1"
      by (rule resolved_upto_frame [OF r f1]) (use dr in simp)
    have r2: "resolved_upto sq n (Suc k) ?st2"
      by (rule resolved_upto_set [OF r1 dep uid1])
    have fr1: "fresh sq ?S st1"
      by (rule frame_fresh [OF \<open>fresh sq ?S st\<close> f1]) simp
    have fr2: "fresh sq ?S ?st2"
      by (rule fresh_set_query_id [OF fr1]) simp
    have inv2: "run_inv sq ex ?st2" using inv1 by simp
    from Suc(1) [OF d sk inv2 fr2 r2] obtain st' where
      res: "resolve_parameters srv eds depth n [Suc k..<?len] ?st2 = Inr st'"
      and inv': "run_inv sq ex st'" and r': "resolved_upto sq n ?len st'"
      and fr': "fresh sq ?S st'" and f': "frame sq {n} ?S ?st2 st'"
      by blast
    have f01: "frame sq {n} ?S st st1"
      by (rule frame_mono [OF f1]) (use dr in auto)
    have f12: "frame sq {n} ?S st1 ?st2" by (rule frame_set_query_id)
    have "frame sq {n} ?S st st'"
      by (rule frame_trans [OF frame_trans [OF f01 f12] f'])
    with res inv' r' fr' show ?thesis unfolding e by blast
  qed
qed

lemma params0_entry:
  "entry st n = map_of sq n \<Longrightarrow> params_of st n = params0 sq n"
  by (simp add: params_of_param_list params0_def)

lemma resolved_upto_0:
  assumes "uid st n = None" "entry st n = map_of sq n" "n \<in> set (map fst sq)"
  shows "resolved_upto sq n 0 st"
proof -
  have "map_of sq n \<noteq> None" using assms(3) by (simp add: map_of_eq_None_iff)
  then show ?thesis
    using assms(1,2) by (simp add: resolved_upto_def params0_entry [OF assms(2)])
qed

lemma upload_query_run:
  assumes ac: "acyclic_refs rank sq"
  shows "n \<in> set (map fst sq) \<Longrightarrow> rank n < depth \<Longrightarrow> run_inv sq ex st
         \<Longrightarrow> fresh sq {x. rank x \<le> rank n} st
         \<Longrightarrow> \<exists>qid st'. upload_query srv eds depth n st = Inr (qid, st')
               \<and> run_inv sq ex st' \<and> uid st' n = Some qid
               \<and> frame sq {} {x. rank x \<le> rank n} st st'"
proof (induction depth arbitrary: n st)
  case 0
  then show ?case by simp
next
  case (Suc depth)
  note n = \<open>n \<in> set (map fst sq)\<close> and inv = \<open>run_inv sq ex st\<close>
    and fr = \<open>fresh sq {x. rank x \<le> rank n} st\<close>
  have keys: "map fst (saved_queries st) = map fst sq" by (rule run_inv_keys [OF inv])
  with n obtain qd where qd: "map_of (saved_queries st) n = Some qd"
    by (metis map_of_eq_None_iff not_Some_eq set_map)
  then have en: "entry st n = Some qd" by (simp add: entry_def)
  show ?case
  proof (cases "q_uploaded_id qd")
    case (Some i)
    then have "uid st n = Some i" using en by (simp add: uid_def)
    with qd Some inv show ?thesis by (simp add: frame_refl)
  next
    case None
    then have un: "uid st n = None" using en by (simp add: uid_def)
    with fr have e0: "entry st n = map_of sq n" by (simp add: fresh_def)
    have p0: "params_of st n = params0 sq n" by (rule params0_entry [OF e0])
    let ?len = "length (params0 sq n)"
    let ?S = "{x. rank x < rank n}"
    have r0: "resolved_upto sq n 0 st" by (rule resolved_upto_0 [OF un e0 n])
    have fr0: "fresh sq ?S st" by (rule fresh_mono [OF fr]) auto
    have rk: "rank n \<le> depth" using Suc.prems(2) by simp
    have loop: "\<exists>st1. (case parameters (q_options qd) of None \<Rightarrow> Inr st
                 | Some ps \<Rightarrow> resolve_parameters srv eds depth n [0..<length ps] st) = Inr st1
              \<and> run_inv sq ex st1 \<and> resolved_upto sq n ?len st1
              \<and> frame sq {n} ?S st st1"
    proof (cases "parameters (q_options qd)")
      case None
      then have "params0 sq n = []"
        using p0 en by (simp add: params_of_def)
      with None inv r0 show ?thesis by (simp add: frame_refl)
    next
      case (Some ps)
      then have l: "length ps = ?len"
        using p0 en by (simp add: params_of_def)
      have "0 \<le> ?len" by simp
      from resolve_parameters_run [OF ac Suc.IH n rk this inv fr0 r0]
      obtain st1 where "resolve_parameters srv eds depth n [0..<?len] st = Inr st1"
        "run_inv sq ex st1" "resolved_upto sq n ?len st1" "frame sq {n} ?S st st1"
        by blast
      then show ?thesis by (simp only: Some option.case l) blast
    qed
    then obtain st1 where
      l1: "(case parameters (q_options qd) of None \<Rightarrow> Inr st
                 | Some ps \<Rightarrow> resolve_parameters srv eds depth n [0..<length ps] st) = Inr st1"
      and inv1: "run_inv sq ex st1" and r1: "resolved_upto sq n ?len st1"
      and f1: "frame sq {n} ?S st st1"
      by blast
    from r1 obtain qd1 where en1: "entry st1 n = Some qd1" and un1: "uid st1 n = None"
      by (auto simp: resolved_upto_def)
    obtain qid st' where s: "send_query srv eds n qd1 st1 = (qid, st')"
      by (cases "send_query srv eds n qd1 st1") auto
    have pl: "param_list (q_options qd1) = params_of st1 n"
      using en1 by (simp add: params_of_param_list)
    have ps: "\<forall>k dep. refers sq n k dep \<longrightarrow>
               (\<exists>p. sent_param qd1 k = Some p \<and> queryId p = uid st1 dep \<and> uid st1 dep \<noteq> None
                    \<and> queryName p = None)"
    proof (intro allI impI)
      fix k dep
      assume rf: "refers sq n k dep"
      then have "k < ?len" by (simp add: refers_def)
      then have "sent_param qd1 k = Some (params_of st1 n ! k)"
        using resolved_upto_length [OF r1] by (simp add: sent_param_def pl)
      with r1 rf \<open>k < ?len\<close>
      show "\<exists>p. sent_param qd1 k = Some p \<and> queryId p = uid st1 dep \<and> uid st1 dep \<noteq> None
                 \<and> queryName p = None"
        by (simp add: resolved_upto_def)
    qed
    from send_query_run [OF ac inv1 n un1 en1 ps s] have
      inv': "run_inv sq ex st'" and u': "uid st' n = Some qid"
      and o': "\<forall>m. m \<noteq> n \<longrightarrow> entry st' m = entry st1 m"
      by simp_all
    have res: "upload_query srv eds (Suc depth) n st = Inr (qid, st')"
      using qd None l1 en1 s by (simp add: entry_def)
    have "frame sq {} {x. rank x \<le> rank n} st st'"
      unfolding frame_def
    proof
      fix m
      show "m \<in> {} \<or> entry st' m = entry st m
            \<or> (m \<in> {x. rank x \<le> rank n} \<and> m \<in> set (map fst sq) \<and> uid st m = None
                \<and> uid st' m \<noteq> None)"
      proof (cases "m = n")
        case True
        with n un u' show ?thesis by simp
      next
        case False
        from f1 have "m \<in> {n} \<or> entry st1 m = entry st m
            \<or> (m \<in> ?S \<and> m \<in> set (map fst sq) \<and> uid st m = None \<and> uid st1 m \<noteq> None)"
          unfolding frame_def by (rule spec)
        with False have "entry st1 m = entry st m
            \<or> (m \<in> ?S \<and> m \<in> set (map fst sq) \<and> uid st m = None \<and> uid st1 m \<noteq> None)"
          by blast
        moreover from o' False have e: "entry st' m = entry st1 m" by simp
        ultimately show ?thesis using uid_entry_eq [OF e] by auto
      qed
    qed
    with res inv' u' show ?thesis by blast
  qed
qed

lemma upload_each_run:
  assumes ac: "acyclic_refs rank sq" and dp: "\<forall>n\<in>set (map fst sq). rank n < depth"
  shows "set names \<subseteq> set (map fst sq) \<Longrightarrow> run_inv sq ex st \<Longrightarrow> fresh sq UNIV st
         \<Longrightarrow> \<exists>st'. upload_each srv eds depth names st = Inr st' \<and> run_inv sq ex st'
                \<and> fresh sq UNIV st' \<and> (\<forall>n\<in>set names. uid st' n \<noteq> None)
                \<and> (\<forall>n. uid st n \<noteq> None \<longrightarrow> uid st' n \<noteq> None)"
proof (induction names arbitrary: st)
  case Nil
  then show ?case by simp
next
  case (Cons n names)
  then have n: "n \<in> set (map fst sq)" and rest: "set names \<subseteq> set (map fst sq)" by simp_all
  have "fresh sq {x. rank x \<le> rank n} st"
    by (rule fresh_mono [OF \<open>fresh sq UNIV st\<close>]) simp
  from upload_query_run [OF ac n _ \<open>run_inv sq ex st\<close> this, of depth srv eds] dp n
  obtain qid st1 where
    u: "upload_query srv eds depth n st = Inr (qid, st1)" and inv1: "run_inv sq ex st1"
    and uid1: "uid st1 n = Some qid" and f1: "frame sq {} {x. rank x \<le> rank n} st st1"
    by blast
  have fr1: "fresh sq UNIV st1"
    by (rule frame_fresh [OF \<open>fresh sq UNIV st\<close> f1]) simp
  from Cons.IH [OF rest inv1 fr1] obtain st' where
    r: "upload_each srv eds depth names st1 = Inr st'" "run_inv sq ex st'" "fresh sq UNIV st'"
      "\<forall>n\<in>set names. uid st' n \<noteq> None" "\<forall>n. uid st1 n \<noteq> None \<longrightarrow> uid st' n \<noteq> None"
    by blast
  have k: "uid st m \<noteq> None \<Longrightarrow> uid st1 m \<noteq> None" for m
    using frame_uid [OF f1, of m] by auto
  from u r uid1 k show ?case by auto
qed

lemma initial_run_inv:
  assumes ac: "acyclic_refs rank sq" and q: "\<forall>n. quiet n reqs"
  shows "run_inv sq ex \<lparr>saved_queries = sq, existing_queries = ex, requests = reqs, logged = lg\<rparr>
         \<and> fresh sq UNIV \<lparr>saved_queries = sq, existing_queries = ex, requests = reqs, logged = lg\<rparr>"
proof -
  let ?st = "\<lparr>saved_queries = sq, existing_queries = ex, requests = reqs, logged = lg\<rparr>"
  have "uid ?st n = None" for n
    using acyclic_not_uploaded [OF ac, of n]
    by (auto simp: uid_def entry_def split: option.splits)
  with q show ?thesis
    by (simp add: run_inv_def fresh_def entry_def)
qed

lemma upload_queries_run:
  assumes ac: "acyclic_refs rank sq" and dp: "\<forall>n\<in>set (map fst sq). rank n < depth"
    and q: "\<forall>n. quiet n reqs"
  shows "\<exists>st'. upload_queries srv eds depth
                 \<lparr>saved_queries = sq, existing_queries = ex, requests = reqs, logged = lg\<rparr>
               = Inr st'
             \<and> run_inv sq ex st' \<and> (\<forall>n\<in>set (map fst sq). uid st' n \<noteq> None)"
  using upload_each_run [OF ac dp subset_refl, of ex _ srv eds] initial_run_inv [OF ac q, of ex lg]
  unfolding upload_queries_def by (simp only: pstate.simps) blast

lemma uploaded_once_requests:
  assumes "uploaded_once ex n i tr"
  shows "\<exists>d. filter (query_request n) tr
              = (if ex n = None then [CreateQuery n d] else []) @ [UpdateQuery n i d]"
proof -
  from assms obtain pre d post where
    s: "tr = pre @ UpdateQuery n i d # post" "quiet n post"
      "filter (query_request n) pre = (if ex n = None then [CreateQuery n d] else [])"
    unfolding uploaded_once_def by blast
  have "filter (query_request n) post = []" by (rule quiet_filter [OF s(2)])
  with s(1,3) show ?thesis by simp
qed

lemma filter_sub:
  assumes "\<And>x. P x \<Longrightarrow> Q x"
  shows "filter P xs = filter P (filter Q xs)"
  using assms by (induction xs) auto

lemma uploaded_once_counts:
  assumes "uploaded_once ex n i tr"
  shows "length (filter (is_update n) tr) = 1
         \<and> length (filter (is_create n) tr) = (if ex n = None then 1 else 0)"
proof -
  from uploaded_once_requests [OF assms] obtain d where
    f: "filter (query_request n) tr
        = (if ex n = None then [CreateQuery n d] else []) @ [UpdateQuery n i d]"
    by blast
  have f1: "filter (is_update n) tr = filter (is_update n) (filter (query_request n) tr)"
    by (rule filter_sub) (simp add: query_request_def)
  have f2: "filter (is_create n) tr = filter (is_create n) (filter (query_request n) tr)"
    by (rule filter_sub) (simp add: query_request_def)
  show ?thesis
    unfolding f1 f2 f by (simp add: is_update_def is_create_def)
qed

lemma uploaded_once_data:
  assumes "uploaded_once ex n i tr"
  shows "\<exists>d. (\<forall>i2 d2. UpdateQuery n i2 d2 \<in> set tr \<longrightarrow> i2 = i \<and> d2 = d)
            \<and> (\<forall>d2. CreateQuery n d2 \<in> set tr \<longrightarrow> d2 = d)"
proof -
  from uploaded_once_requests [OF assms] obtain d where
    f: "filter (query_request n) tr
        = (if ex n = None then [CreateQuery n d] else []) @ [UpdateQuery n i d]"
    by blast
  have m: "r \<in> set tr \<Longrightarrow> query_request n r \<Longrightarrow> r = CreateQuery n d \<or> r = UpdateQuery n i d"
    for r
  proof -
    assume "r \<in> set tr" "query_request n r"
    then have "r \<in> set (filter (query_request n) tr)" by simp
    then show ?thesis unfolding f by (auto split: if_splits)
  qed
  have "i2 = i \<and> d2 = d" if "UpdateQuery n i2 d2 \<in> set tr" for i2 d2
    using m [OF that] by simp
  moreover have "d2 = d" if "CreateQuery n d2 \<in> set tr" for d2
    using m [OF that] by simp
  ultimately show ?thesis by blast
qed

lemma dep_before_split:
  assumes db: "dep_before sq n tr" and rf: "refers sq n k dep"
    and un: "uploaded_once ex n i tr" and ud: "uploaded_once ex dep j tr"
  shows "\<exists>pre d2 post. tr = pre @ UpdateQuery dep j d2 # post
           \<and> quiet n pre \<and> quiet dep post
           \<and> (\<exists>iq dq. UpdateQuery n iq dq \<in> set post)
           \<and> (\<forall>iq dq. UpdateQuery n iq dq \<in> set post \<or> CreateQuery n dq \<in> set post \<longrightarrow>
                 (\<exists>p. sent_param dq k = Some p \<and> queryId p = Some j \<and> queryName p = None))"
proof -
  from db rf obtain pre i2 d2 post where
    s: "tr = pre @ UpdateQuery dep i2 d2 # post" "quiet n pre" "quiet dep post"
    and e: "\<exists>iq dq. UpdateQuery n iq dq \<in> set post"
    and a: "\<forall>iq dq. UpdateQuery n iq dq \<in> set post \<longrightarrow>
              (\<exists>p. sent_param dq k = Some p \<and> queryId p = Some i2 \<and> queryName p = None)"
    unfolding dep_before_def by blast
  have sub: "set post \<subseteq> set tr" and mem: "UpdateQuery dep i2 d2 \<in> set tr"
    unfolding s(1) by auto
  from uploaded_once_data [OF ud] mem have j: "i2 = j" by blast
  from uploaded_once_data [OF un] obtain d where
    d: "\<forall>i2 d2. UpdateQuery n i2 d2 \<in> set tr \<longrightarrow> i2 = i \<and> d2 = d"
       "\<forall>d2. CreateQuery n d2 \<in> set tr \<longrightarrow> d2 = d"
    by blast
  from e obtain iq dq where u: "UpdateQuery n iq dq \<in> set post" by blast
  with d(1) sub have "dq = d" by blast
  with a u have p: "\<exists>p. sent_param d k = Some p \<and> queryId p = Some i2 \<and> queryName p = None"
    by blast
  have "\<exists>p. sent_param dq k = Some p \<and> queryId p = Some j \<and> queryName p = None"
    if "UpdateQuery n iq dq \<in> set post \<or> CreateQuery n dq \<in> set post" for iq dq
  proof -
    from that d sub have "dq = d" by blast
    with p j show ?thesis by simp
  qed
  then have "\<forall>iq dq. UpdateQuery n iq dq \<in> set post \<or> CreateQuery n dq \<in> set post \<longrightarrow>
                 (\<exists>p. sent_param dq k = Some p \<and> queryId p = Some j \<and> queryName p = None)"
    by blast
  with s e show ?thesis unfolding j by blast
qed

text \<open>
  C1. Let the saved queries have distinct names and no \<open>uploaded_id\<close>, let every parameter
  of type \<open>query\<close> name a saved query of smaller rank (so the references are acyclic and
  every referenced name is present), let the recursion limit exceed every rank, and let the
  trace hold no query request at the start. Then \<open>upload_queries\<close> returns, and for every
  saved query \<open>n\<close> whose parameter \<open>k\<close> refers to \<open>dep\<close> the trace splits at the update
  request of \<open>dep\<close>: no request for \<open>n\<close> stands before it, no request for \<open>dep\<close> stands
  after it, the id it was sent to is the id recorded for \<open>dep\<close>, an update of \<open>n\<close> follows,
  and every create and update request of \<open>n\<close> carries parameter \<open>k\<close> with that id as
  \<open>queryId\<close> and without \<open>queryName\<close>.
\<close>

theorem dependencies_are_uploaded_first:
  assumes "acyclic_refs rank saved" and "\<forall>n\<in>set (map fst saved). rank n < depth"
    and "\<forall>n. quiet n reqs"
  shows "\<exists>st'. upload_queries srv eds depth
                 \<lparr>saved_queries = saved, existing_queries = existing, requests = reqs,
                  logged = lg\<rparr> = Inr st'
             \<and> (\<forall>n k dep. refers saved n k dep \<longrightarrow>
                  (\<exists>pre i2 d2 post. requests st' = pre @ UpdateQuery dep i2 d2 # post
                     \<and> uid st' dep = Some i2 \<and> quiet n pre \<and> quiet dep post
                     \<and> (\<exists>iq dq. UpdateQuery n iq dq \<in> set post)
                     \<and> (\<forall>iq dq. UpdateQuery n iq dq \<in> set post \<or> CreateQuery n dq \<in> set post
                           \<longrightarrow> (\<exists>p. sent_param dq k = Some p \<and> queryId p = Some i2
                                     \<and> queryName p = None))))"
proof -
  from upload_queries_run [OF assms, of srv eds existing lg] obtain st' where
    u: "upload_queries srv eds depth
          \<lparr>saved_queries = saved, existing_queries = existing, requests = reqs, logged = lg\<rparr>
        = Inr st'"
    and inv: "run_inv saved existing st'" and all: "\<forall>n\<in>set (map fst saved). uid st' n \<noteq> None"
    by blast
  have "\<exists>pre i2 d2 post. requests st' = pre @ UpdateQuery dep i2 d2 # post
          \<and> uid st' dep = Some i2 \<and> quiet n pre \<and> quiet dep post
          \<and> (\<exists>iq dq. UpdateQuery n iq dq \<in> set post)
          \<and> (\<forall>iq dq. UpdateQuery n iq dq \<in> set post \<or> CreateQuery n dq \<in> set post
                \<longrightarrow> (\<exists>p. sent_param dq k = Some p \<and> queryId p = Some i2
                          \<and> queryName p = None))"
    if rf: "refers saved n k dep" for n k dep
  proof -
    from refers_acyclic [OF assms(1) rf] have n: "n \<in> set (map fst saved)"
      and d: "dep \<in> set (map fst saved)" by simp_all
    from all n obtain i where i: "uid st' n = Some i" by auto
    from all d obtain j where j: "uid st' dep = Some j" by auto
    from run_inv_Some [OF inv n i] have un: "uploaded_once existing n i (requests st')"
      and db: "dep_before saved n (requests st')" by simp_all
    from run_inv_Some [OF inv d j] have ud: "uploaded_once existing dep j (requests st')"
      by simp
    from dep_before_split [OF db rf un ud] j show ?thesis by blast
  qed
  with u show ?thesis by blast
qed

theorem dependencies_are_uploaded_first_witness:
  "acyclic_refs ex_rank ex_queries \<and> refers ex_queries ''Report'' 1 ''Lookup''
   \<and> (\<exists>st'. upload_queries ex_server ex_remote_dashboards 10 ex_initial = Inr st'
         \<and> (\<exists>pre i2 d2 post. requests st' = pre @ UpdateQuery ''Lookup'' i2 d2 # post
               \<and> uid st' ''Lookup'' = Some i2 \<and> quiet ''Report'' pre \<and> quiet ''Lookup'' post
               \<and> (\<exists>iq dq. UpdateQuery ''Report'' iq dq \<in> set post)
               \<and> (\<forall>iq dq. UpdateQuery ''Report'' iq dq \<in> set post
                           \<or> CreateQuery ''Report'' dq \<in> set post
                     \<longrightarrow> (\<exists>p. sent_param dq 1 = Some p \<and> queryId p = Some i2
                               \<and> queryName p = None))))"
proof -
  have a: "acyclic_refs ex_rank ex_queries"
    by (simp add: acyclic_refs_def ex_rank_def ex_queries_def query_parameters_def)
  have b: "\<forall>n\<in>set (map fst ex_queries). ex_rank n < 10"
    by (simp add: ex_rank_def ex_queries_def)
  have c: "\<forall>n. quiet n ([] :: string request list)" by simp
  have r: "refers ex_queries ''Report'' 1 ''Lookup''"
    by (simp add: refers_def params0_def param_list_def ex_queries_def)
  from dependencies_are_uploaded_first [OF a b c, of ex_server ex_remote_dashboards Map.empty "[]"]
    r a
  show ?thesis unfolding ex_initial_def by blast
qed

text \<open>
  C2. Under the same conditions \<open>upload_queries\<close> returns with, for every saved query,
  exactly one update request in the trace, one create request when no query of that name
  existed on the server at the start and none otherwise; and a further call of
  \<open>upload_query\<close> on it returns the recorded id and leaves the state, and with it the
  trace, unchanged.
\<close>

theorem each_query_is_uploaded_once:
  assumes "acyclic_refs rank saved" and "\<forall>n\<in>set (map fst saved). rank n < depth"
    and "\<forall>n. quiet n reqs"
  shows "\<exists>st'. upload_queries srv eds depth
                 \<lparr>saved_queries = saved, existing_queries = existing, requests = reqs,
                  logged = lg\<rparr> = Inr st'
             \<and> (\<forall>n\<in>set (map fst saved).
                   length (filter (is_update n) (requests st')) = 1
                   \<and> length (filter (is_create n) (requests st'))
                       = (if existing n = None then 1 else 0)
                   \<and> (\<exists>i. uid st' n = Some i
                          \<and> (\<forall>d. upload_query srv eds (Suc d) n st' = Inr (i, st'))))"
proof -
  from upload_queries_run [OF assms, of srv eds existing lg] obtain st' where
    u: "upload_queries srv eds depth
          \<lparr>saved_queries = saved, existing_queries = existing, requests = reqs, logged = lg\<rparr>
        = Inr st'"
    and inv: "run_inv saved existing st'" and all: "\<forall>n\<in>set (map fst saved). uid st' n \<noteq> None"
    by blast
  have "length (filter (is_update n) (requests st')) = 1
        \<and> length (filter (is_create n) (requests st')) = (if existing n = None then 1 else 0)
        \<and> (\<exists>i. uid st' n = Some i \<and> (\<forall>d. upload_query srv eds (Suc d) n st' = Inr (i, st')))"
    if n: "n \<in> set (map fst saved)" for n
  proof -
    from all n obtain i where i: "uid st' n = Some i" by auto
    from run_inv_Some [OF inv n i] have "uploaded_once existing n i (requests st')" by simp
    from uploaded_once_counts [OF this] i show ?thesis
      by (auto simp: uid_def entry_def split: option.splits)
  qed
  with u show ?thesis by blast
qed

theorem each_query_is_uploaded_once_witness:
  "acyclic_refs ex_rank ex_queries
   \<and> (\<exists>st'. upload_queries ex_server ex_remote_dashboards 10
               \<lparr>saved_queries = ex_queries, existing_queries = ex_known, requests = [],
                logged = []\<rparr> = Inr st'
         \<and> length (filter (is_update ''Report'') (requests st')) = 1
         \<and> length (filter (is_create ''Report'') (requests st')) = 1
         \<and> length (filter (is_update ''Lookup'') (requests st')) = 1
         \<and> length (filter (is_create ''Lookup'') (requests st')) = 0
         \<and> (\<exists>i. uid st' ''Lookup'' = Some i
                \<and> upload_query ex_server ex_remote_dashboards 10 ''Lookup'' st' = Inr (i, st')))"
proof -
  have a: "acyclic_refs ex_rank ex_queries"
    by (simp add: acyclic_refs_def ex_rank_def ex_queries_def query_parameters_def)
  have b: "\<forall>n\<in>set (map fst ex_queries). ex_rank n < 10"
    by (simp add: ex_rank_def ex_queries_def)
  have c: "\<forall>n. quiet n ([] :: string request list)" by simp
  have k: "set (map fst ex_queries) = {''Report'', ''Lookup''}"
    by (simp add: ex_queries_def)
  have e: "ex_known ''Report'' = None" "ex_known ''Lookup'' \<noteq> None"
    by (simp_all add: ex_known_def)
  have t: "(10::nat) = Suc 9" by simp
  from each_query_is_uploaded_once [OF a b c, of ex_server ex_remote_dashboards ex_known "[]"]
  obtain st' where
    "upload_queries ex_server ex_remote_dashboards 10
       \<lparr>saved_queries = ex_queries, existing_queries = ex_known, requests = [], logged = []\<rparr>
     = Inr st'"
    "\<forall>n\<in>{''Report'', ''Lookup''}.
         length (filter (is_update n) (requests st')) = 1
         \<and> length (filter (is_create n) (requests st')) = (if ex_known n = None then 1 else 0)
         \<and> (\<exists>i. uid st' n = Some i
                \<and> (\<forall>d. upload_query ex_server ex_remote_dashboards (Suc d) n st' = Inr (i, st')))"
    unfolding k by blast
  then have u: "upload_queries ex_server ex_remote_dashboards 10
       \<lparr>saved_queries = ex_queries, existing_queries = ex_known, requests = [], logged = []\<rparr>
     = Inr st'"
    and r: "length (filter (is_update ''Report'') (requests st')) = 1"
      "length (filter (is_create ''Report'') (requests st')) = 1"
    and l: "length (filter (is_update ''Lookup'') (requests st')) = 1"
      "length (filter (is_create ''Lookup'') (requests st')) = 0"
    and m: "\<exists>i. uid st' ''Lookup'' = Some i
                \<and> (\<forall>d. upload_query ex_server ex_remote_dashboards (Suc d) ''Lookup'' st'
                         = Inr (i, st'))"
    using e by simp_all
  from m have "\<exists>i. uid st' ''Lookup'' = Some i
                \<and> upload_query ex_server ex_remote_dashboards 10 ''Lookup'' st' = Inr (i, st')"
    unfolding t by blast
  with a u r l show ?thesis by blast
qed

end
